theory Spec2Isabelle
  imports Complex_Main "HOL-Library.Word"
begin

text \<open>
  A model of the Godot LSP bridge: a Node script that relays Content-Length framed JSON-RPC
  messages between stdio and a TCP connection to Godot's language server. The model follows
  the bridge with reconnection and URI normalisation; \<open>index.mjs\<close> is the same
  script without them (it sends every message from stdin through \<open>sendToGodot\<close>, and
  its \<open>writeToStdout\<close> prints the length it is given instead of measuring the content).
  Each handler of the script is a function on the record of the script's variables.
\<close>

section \<open>Bytes, strings and the platform's UTF-8 conversions\<close>

text \<open>
  A Node \<open>Buffer\<close> is a sequence of bytes; a JavaScript string is a sequence of UTF-16
  code units. The bridge moves between the two with \<open>buf.toString('utf8')\<close>,
  \<open>Buffer.byteLength(s, 'utf8')\<close> and \<open>stream.write(s)\<close> (UTF-8 by default).
\<close>

type_synonym byte = "8 word"
type_synonym jsstring = "16 word list"

definition ascii :: "string \<Rightarrow> jsstring" where
  "ascii s = map (\<lambda>c. of_nat (of_char c)) s"

text \<open>The UTF-16 code units of one decoded code point (a surrogate pair above the BMP).\<close>

definition utf16_units :: "nat \<Rightarrow> jsstring" where
  "utf16_units cp =
     (if cp < 0x10000 then [of_nat cp]
      else [of_nat (0xD800 + (cp - 0x10000) div 0x400),
            of_nat (0xDC00 + (cp - 0x10000) mod 0x400)])"

definition in_range :: "nat \<Rightarrow> nat \<Rightarrow> byte \<Rightarrow> bool" where
  "in_range lo hi b = (lo \<le> unat b \<and> unat b \<le> hi)"

text \<open>
  \<open>buf.toString('utf8')\<close>: the UTF-8 decoder with replacement. An ill-formed sequence
  yields U+FFFD for its maximal valid prefix and decoding resumes at the offending byte;
  no byte order mark is stripped.
\<close>

fun toString_utf8 :: "byte list \<Rightarrow> jsstring" where
  "toString_utf8 [] = []"
| "toString_utf8 (b # bs) =
     (let n = unat b in
      if n < 0x80 then of_nat n # toString_utf8 bs
      else if 0xC2 \<le> n \<and> n \<le> 0xDF then
        (case bs of
           [] \<Rightarrow> [0xFFFD]
         | c1 # r1 \<Rightarrow>
             if in_range 0x80 0xBF c1
             then utf16_units ((n mod 0x20) * 0x40 + unat c1 mod 0x40) @ toString_utf8 r1
             else 0xFFFD # toString_utf8 bs)
      else if 0xE0 \<le> n \<and> n \<le> 0xEF then
        (case bs of
           [] \<Rightarrow> [0xFFFD]
         | c1 # r1 \<Rightarrow>
             if in_range (if n = 0xE0 then 0xA0 else 0x80) (if n = 0xED then 0x9F else 0xBF) c1
             then
               (case r1 of
                  [] \<Rightarrow> [0xFFFD]
                | c2 # r2 \<Rightarrow>
                    if in_range 0x80 0xBF c2
                    then utf16_units (((n mod 0x10) * 0x40 + unat c1 mod 0x40) * 0x40
                                        + unat c2 mod 0x40) @ toString_utf8 r2
                    else 0xFFFD # toString_utf8 r1)
             else 0xFFFD # toString_utf8 bs)
      else if 0xF0 \<le> n \<and> n \<le> 0xF4 then
        (case bs of
           [] \<Rightarrow> [0xFFFD]
         | c1 # r1 \<Rightarrow>
             if in_range (if n = 0xF0 then 0x90 else 0x80) (if n = 0xF4 then 0x8F else 0xBF) c1
             then
               (case r1 of
                  [] \<Rightarrow> [0xFFFD]
                | c2 # r2 \<Rightarrow>
                    if in_range 0x80 0xBF c2
                    then
                      (case r2 of
                         [] \<Rightarrow> [0xFFFD]
                       | c3 # r3 \<Rightarrow>
                           if in_range 0x80 0xBF c3
                           then utf16_units ((((n mod 0x08) * 0x40 + unat c1 mod 0x40) * 0x40
                                               + unat c2 mod 0x40) * 0x40 + unat c3 mod 0x40)
                                  @ toString_utf8 r3
                           else 0xFFFD # toString_utf8 r2)
                    else 0xFFFD # toString_utf8 r1)
             else 0xFFFD # toString_utf8 bs)
      else 0xFFFD # toString_utf8 bs)"

text \<open>
  The UTF-8 encoding of a string, as \<open>Buffer.byteLength\<close> counts it and \<open>write\<close> emits
  it: a surrogate pair becomes one four-byte sequence, an unpaired surrogate becomes the
  three bytes of U+FFFD.
\<close>

definition utf8_bytes :: "nat \<Rightarrow> byte list" where
  "utf8_bytes cp =
     (if cp < 0x80 then [of_nat cp]
      else if cp < 0x800 then [of_nat (0xC0 + cp div 0x40), of_nat (0x80 + cp mod 0x40)]
      else if cp < 0x10000 then
        [of_nat (0xE0 + cp div 0x1000), of_nat (0x80 + (cp div 0x40) mod 0x40),
         of_nat (0x80 + cp mod 0x40)]
      else
        [of_nat (0xF0 + cp div 0x40000), of_nat (0x80 + (cp div 0x1000) mod 0x40),
         of_nat (0x80 + (cp div 0x40) mod 0x40), of_nat (0x80 + cp mod 0x40)])"

definition is_high_surrogate :: "16 word \<Rightarrow> bool" where
  "is_high_surrogate u = (0xD800 \<le> unat u \<and> unat u < 0xDC00)"

definition is_low_surrogate :: "16 word \<Rightarrow> bool" where
  "is_low_surrogate u = (0xDC00 \<le> unat u \<and> unat u < 0xE000)"

fun utf8_encode :: "jsstring \<Rightarrow> byte list" where
  "utf8_encode [] = []"
| "utf8_encode (u # us) =
     (if is_high_surrogate u then
        (case us of
           [] \<Rightarrow> [0xEF, 0xBF, 0xBD]
         | v # vs \<Rightarrow>
             if is_low_surrogate v
             then utf8_bytes (0x10000 + (unat u - 0xD800) * 0x400 + (unat v - 0xDC00))
                    @ utf8_encode vs
             else [0xEF, 0xBF, 0xBD] @ utf8_encode us)
      else if is_low_surrogate u then [0xEF, 0xBF, 0xBD] @ utf8_encode us
      else utf8_bytes (unat u) @ utf8_encode us)"

definition byteLength :: "jsstring \<Rightarrow> nat" where
  "byteLength s = length (utf8_encode s)"

section \<open>Frame codec\<close>

definition HEADER_DELIMITER :: "byte list" where
  "HEADER_DELIMITER = [0x0D, 0x0A, 0x0D, 0x0A]"

text \<open>\<open>buf.indexOf(needle)\<close>: the first offset at which \<open>needle\<close> occurs, \<open>None\<close> for -1.\<close>

fun indexOf :: "byte list \<Rightarrow> byte list \<Rightarrow> nat option" where
  "indexOf [] needle = (if needle = [] then Some 0 else None)"
| "indexOf (b # bs) needle =
     (if take (length needle) (b # bs) = needle then Some 0
      else map_option Suc (indexOf bs needle))"

text \<open>
  The regular expression \<open>/Content-Length:\s*(\d+)/i\<close>. Without the \<open>u\<close> flag, case
  folding never identifies a character outside ASCII with an ASCII one, so against the
  ASCII literal only the two cases of each letter match. \<open>\s\<close> is ECMAScript's white
  space and line terminators, \<open>\d\<close> the ten ASCII digits.
\<close>

definition canon :: "16 word \<Rightarrow> 16 word" where
  "canon u = (if 0x61 \<le> u \<and> u \<le> 0x7A then u - 0x20 else u)"

definition is_space :: "16 word \<Rightarrow> bool" where
  "is_space u =
     (u \<in> {0x09, 0x0A, 0x0B, 0x0C, 0x0D, 0x20, 0xA0, 0x1680, 0x2028, 0x2029, 0x202F,
            0x205F, 0x3000, 0xFEFF}
      \<or> (0x2000 \<le> u \<and> u \<le> 0x200A))"

definition is_digit :: "16 word \<Rightarrow> bool" where
  "is_digit u = (0x30 \<le> u \<and> u \<le> 0x39)"

text \<open>
  A match anchored at the start of \<open>s\<close>, giving capture group 1. The white space run and
  the digit run are both taken greedily; as no character is both, backtracking cannot
  find a match that the greedy reading misses.
\<close>

definition match_here :: "jsstring \<Rightarrow> jsstring option" where
  "match_here s =
     (let lit = ascii ''Content-Length:'' in
      if length lit \<le> length s \<and> map canon (take (length lit) s) = map canon lit then
        (let ds = takeWhile is_digit (dropWhile is_space (drop (length lit) s)) in
         if ds = [] then None else Some ds)
      else None)"

text \<open>\<open>header.match(...)\<close>: the leftmost match; \<open>None\<close> when \<open>match\<close> returns null.\<close>

fun header_match :: "jsstring \<Rightarrow> jsstring option" where
  "header_match [] = match_here []"
| "header_match (c # cs) =
     (case match_here (c # cs) of Some ds \<Rightarrow> Some ds | None \<Rightarrow> header_match cs)"

text \<open>
  \<open>parseInt(digits, 10)\<close> on a non-empty run of digits. The value is exact as a natural
  number; a JavaScript number is exact below \<open>2^53\<close>, and a larger length exceeds every
  buffer both here and there, so the comparison in \<open>extractMessages\<close> agrees.
\<close>

definition parseInt :: "jsstring \<Rightarrow> nat" where
  "parseInt ds = foldl (\<lambda>a d. 10 * a + (unat d - 0x30)) 0 ds"

lemma indexOf_bound: "indexOf buf needle = Some i \<Longrightarrow> i + length needle \<le> length buf"
proof (induction buf arbitrary: i)
  case Nil
  then show ?case by (simp split: if_splits)
next
  case (Cons b bs)
  show ?case
  proof (cases "take (length needle) (b # bs) = needle")
    case True
    have "length (take (length needle) (b # bs)) = min (length (b # bs)) (length needle)"
      by (rule length_take)
    with arg_cong [OF True, of length] have "length needle \<le> length (b # bs)"
      by arith
    with True Cons.prems show ?thesis by simp
  next
    case False
    with Cons.prems obtain j where "indexOf bs needle = Some j" "i = Suc j"
      by auto
    with Cons.IH show ?thesis by fastforce
  qed
qed

text \<open>
  \<open>extractMessages(buffer, onMessage)\<close>. The callback mutates the bridge's state, so
  the state is threaded through the loop; the result is the unconsumed remainder and the
  state after every callback.
\<close>

function extractMessages ::
  "byte list \<Rightarrow> (jsstring \<Rightarrow> nat \<Rightarrow> 's \<Rightarrow> 's) \<Rightarrow> 's \<Rightarrow> byte list \<times> 's" where
  "extractMessages remaining onMessage st =
     (case indexOf remaining HEADER_DELIMITER of
        None \<Rightarrow> (remaining, st)
      | Some headerEnd \<Rightarrow>
          (case header_match (toString_utf8 (take headerEnd remaining)) of
             None \<Rightarrow> extractMessages (drop (headerEnd + 4) remaining) onMessage st
           | Some ds \<Rightarrow>
               (let contentLength = parseInt ds;
                    messageStart = headerEnd + 4;
                    messageEnd = messageStart + contentLength
                in if length remaining < messageEnd then (remaining, st)
                   else extractMessages (drop messageEnd remaining) onMessage
                          (onMessage
                             (toString_utf8 (take contentLength (drop messageStart remaining)))
                             contentLength st))))"
  by pat_completeness auto
termination
proof (relation "measure (\<lambda>(remaining, onMessage, st). length remaining)")
  show "wf (measure (\<lambda>(remaining, onMessage, st). length remaining))"
    by simp
next
  fix remaining :: "byte list" and onMessage :: "jsstring \<Rightarrow> nat \<Rightarrow> 's \<Rightarrow> 's"
    and st :: 's and headerEnd
  assume "indexOf remaining HEADER_DELIMITER = Some headerEnd"
  then have "headerEnd + 4 \<le> length remaining"
    using indexOf_bound [of remaining HEADER_DELIMITER headerEnd]
    by (simp add: HEADER_DELIMITER_def)
  then show "((drop (headerEnd + 4) remaining, onMessage, st), remaining, onMessage, st)
      \<in> measure (\<lambda>(remaining, onMessage, st). length remaining)"
    by simp
next
  fix remaining :: "byte list" and onMessage :: "jsstring \<Rightarrow> nat \<Rightarrow> 's \<Rightarrow> 's"
    and st :: 's and headerEnd ds contentLength messageStart messageEnd
  assume "indexOf remaining HEADER_DELIMITER = Some headerEnd"
    and "messageStart = headerEnd + 4"
    and "messageEnd = messageStart + contentLength"
    and "\<not> length remaining < messageEnd"
  then show "((drop messageEnd remaining, onMessage,
        onMessage (toString_utf8 (take contentLength (drop messageStart remaining)))
          contentLength st), remaining, onMessage, st)
      \<in> measure (\<lambda>(remaining, onMessage, st). length remaining)"
    by simp
qed

text \<open>
  The number as a template literal prints it: decimal digits, no sign, no leading zero
  (a byte length is a non-negative integer far below the range of exponent notation).
\<close>

definition digit_unit :: "nat \<Rightarrow> 16 word" where
  "digit_unit d = of_nat (0x30 + d)"

function decimal :: "nat \<Rightarrow> jsstring" where
  "decimal n = (if n < 10 then [digit_unit n]
                else decimal (n div 10) @ [digit_unit (n mod 10)])"
  by pat_completeness auto
termination
  by (relation "measure id") auto

text \<open>The text \<open>`Content-Length: ${n}\r\n\r\n${content}`\<close> that both writers emit.\<close>

definition frame :: "nat \<Rightarrow> jsstring \<Rightarrow> jsstring" where
  "frame n content = ascii ''Content-Length: '' @ decimal n @ [0x0D, 0x0A, 0x0D, 0x0A] @ content"

section \<open>JSON values and the URI normalisation\<close>

text \<open>
  A value as \<open>JSON.parse\<close> returns it. An object lists its own properties in the order
  \<open>Object.entries\<close> enumerates them, each key once. A number is the numeric value of
  the JavaScript number, so that \<open>===\<close> on numbers is equality here.
\<close>

datatype json =
    JNull
  | JBool bool
  | JNum real
  | JStr jsstring
  | JArr "json list"
  | JObj "(jsstring \<times> json) list"

datatype jserror = SyntaxError | TypeError

text \<open>
  \<open>JSON.parse\<close> and \<open>JSON.stringify\<close> belong to the platform, not to the bridge: they
  are parameters of the model. \<open>JSON_parse\<close> gives \<open>None\<close> where \<open>JSON.parse\<close> throws.
\<close>

record platform =
  JSON_parse :: "jsstring \<Rightarrow> json option"
  JSON_stringify :: "json \<Rightarrow> jsstring"

text \<open>
  Reading one of the properties \<open>id\<close>, \<open>method\<close>, \<open>result\<close> of a parsed message:
  on \<open>null\<close> the read throws; on an object it is the own property or \<open>undefined\<close>
  (\<open>None\<close>); on a number, boolean, string or array it is \<open>undefined\<close>, as no prototype
  defines these three names.
\<close>

fun get_prop :: "json \<Rightarrow> jsstring \<Rightarrow> jserror + json option" where
  "get_prop JNull k = Inl TypeError"
| "get_prop (JObj kvs) k = Inr (map_of kvs k)"
| "get_prop v k = Inr None"

text \<open>
  \<open>a === b\<close> for two values that come from different calls of \<open>JSON.parse\<close>
  (\<open>None\<close> is \<open>undefined\<close>): primitives compare by value, while two arrays or objects
  are never the same reference.
\<close>

fun strict_equals :: "json option \<Rightarrow> json option \<Rightarrow> bool" where
  "strict_equals None None = True"
| "strict_equals (Some (JArr xs)) (Some b) = False"
| "strict_equals (Some (JObj kvs)) (Some b) = False"
| "strict_equals (Some a) (Some b) = (a = b)"
| "strict_equals a b = False"

definition startsWith :: "jsstring \<Rightarrow> jsstring \<Rightarrow> bool" where
  "startsWith s p = (take (length p) s = p)"

definition normalizeFileUri :: "jsstring \<Rightarrow> jsstring" where
  "normalizeFileUri uri =
     (if uri = [] \<or> \<not> startsWith uri (ascii ''file://'') then uri
      else
        (let path0 = drop 7 uri;
             path1 = map (\<lambda>c. if c = 0x5C then 0x2F else c) path0;
             path2 = (if length path1 > 0 \<and> hd path1 \<noteq> 0x2F then 0x2F # path1 else path1)
         in ascii ''file://'' @ path2))"

text \<open>
  \<open>result[key] = value\<close> on the plain object \<open>result\<close>: the key \<open>__proto__\<close> reaches the
  prototype setter and adds no own property; any other key is set in place or appended.
\<close>

fun assign_prop :: "(jsstring \<times> json) list \<Rightarrow> jsstring \<Rightarrow> json \<Rightarrow> (jsstring \<times> json) list" where
  "assign_prop [] k v = [(k, v)]"
| "assign_prop ((k', v') # kvs) k v =
     (if k' = k then (k, v) # kvs else (k', v') # assign_prop kvs k v)"

definition set_prop :: "(jsstring \<times> json) list \<Rightarrow> jsstring \<Rightarrow> json \<Rightarrow> (jsstring \<times> json) list" where
  "set_prop res k v = (if k = ascii ''__proto__'' then res else assign_prop res k v)"

primrec normalizeUrisInObject :: "json \<Rightarrow> json" where
  "normalizeUrisInObject JNull = JNull"
| "normalizeUrisInObject (JBool b) = JBool b"
| "normalizeUrisInObject (JNum n) = JNum n"
| "normalizeUrisInObject (JStr s) =
     (if startsWith s (ascii ''file://'') then JStr (normalizeFileUri s) else JStr s)"
| "normalizeUrisInObject (JArr xs) = JArr (map normalizeUrisInObject xs)"
| "normalizeUrisInObject (JObj kvs) =
     JObj (foldl (\<lambda>res (k, v). set_prop res k v) []
             (map (map_prod id normalizeUrisInObject) kvs))"

section \<open>The bridge\<close>

text \<open>
  A queued message is the object \<open>{ content, contentLength }\<close>. A socket is known to the
  bridge by its \<open>destroyed\<close> flag alone.
\<close>

type_synonym message = "jsstring \<times> nat"

datatype socket = Socket (destroyed: bool)

text \<open>
  The module's variables, and the two output streams as the lists of the strings written
  to them, oldest first: \<open>stdout\<close> for \<open>process.stdout.write\<close>, \<open>tcpWritten\<close> for every
  \<open>tcpSocket.write\<close> on a socket that is not destroyed. \<open>reconnectTimer\<close> holds whether a
  reconnect timer is armed. Logging and the operator messages on stderr are left out:
  they read the state and change none of it.
\<close>

record bridge =
  tcpSocket :: "socket option"
  tcpConnected :: bool
  tcpBuffer :: "byte list"
  stdinBuffer :: "byte list"
  pendingMessages :: "message list"
  waitingForInitialize :: bool
  initializeRequestId :: json
  bufferedNotifications :: "message list"
  isReconnecting :: bool
  isWarmingUp :: bool
  reconnectTimer :: bool
  reconnectAttempts :: nat
  wasInitialized :: bool
  shouldKeepRunning :: bool
  stdout :: "jsstring list"
  tcpWritten :: "jsstring list"

definition initial_bridge :: bridge where
  "initial_bridge =
     \<lparr> tcpSocket = None, tcpConnected = False, tcpBuffer = [], stdinBuffer = [],
       pendingMessages = [], waitingForInitialize = False, initializeRequestId = JNull,
       bufferedNotifications = [], isReconnecting = False, isWarmingUp = False,
       reconnectTimer = False, reconnectAttempts = 0, wasInitialized = False,
       shouldKeepRunning = True, stdout = [], tcpWritten = [] \<rparr>"

definition writeToStdout :: "bridge \<Rightarrow> jsstring \<Rightarrow> nat \<Rightarrow> bridge" where
  "writeToStdout st content contentLength =
     st\<lparr>stdout := stdout st @ [frame (byteLength content) content]\<rparr>"

text \<open>\<open>sock.write(data)\<close>: a destroyed socket delivers nothing.\<close>

definition socket_write :: "socket \<Rightarrow> jsstring \<Rightarrow> bridge \<Rightarrow> bridge" where
  "socket_write sock data st =
     (if destroyed sock then st else st\<lparr>tcpWritten := tcpWritten st @ [data]\<rparr>)"

text \<open>
  \<open>sendToGodot\<close> in two steps. First the \<open>try\<close> block: it parses the payload, tracks an
  initialize request and computes \<open>normalizedContent\<close>; when \<open>JSON.parse\<close> throws, or the
  read of \<open>msg.method\<close> throws because the payload is \<open>null\<close>, the \<open>catch\<close> leaves the
  state and the content as they were. Then the message is written or queued.
\<close>

definition track_and_normalize :: "platform \<Rightarrow> bridge \<Rightarrow> jsstring \<Rightarrow> bridge \<times> jsstring" where
  "track_and_normalize P st content =
     (case JSON_parse P content of
        None \<Rightarrow> (st, content)
      | Some msg \<Rightarrow>
          (case get_prop msg (ascii ''method'') of
             Inl e \<Rightarrow> (st, content)
           | Inr m \<Rightarrow>
               (let tracked =
                  (if strict_equals m (Some (JStr (ascii ''initialize'')))
                      \<and> get_prop msg (ascii ''id'') \<noteq> Inr None
                   then st\<lparr>waitingForInitialize := True,
                           initializeRequestId :=
                             (case get_prop msg (ascii ''id'') of
                                Inr (Some i) \<Rightarrow> i | _ \<Rightarrow> JNull),
                           wasInitialized := False\<rparr>
                   else st)
                in (tracked, JSON_stringify P (normalizeUrisInObject msg)))))"

definition sendToGodot :: "platform \<Rightarrow> bridge \<Rightarrow> jsstring \<Rightarrow> nat \<Rightarrow> bridge" where
  "sendToGodot P st content contentLength =
     (let (st1, normalizedContent) = track_and_normalize P st content
      in case tcpSocket st1 of
           Some sock \<Rightarrow>
             if tcpConnected st1 \<and> \<not> destroyed sock
             then socket_write sock (frame (byteLength normalizedContent) normalizedContent) st1
             else st1\<lparr>pendingMessages := pendingMessages st1
                        @ [(normalizedContent, byteLength normalizedContent)]\<rparr>
         | None \<Rightarrow>
             st1\<lparr>pendingMessages := pendingMessages st1
                   @ [(normalizedContent, byteLength normalizedContent)]\<rparr>)"

definition handleGodotMessage :: "platform \<Rightarrow> bridge \<Rightarrow> jsstring \<Rightarrow> nat \<Rightarrow> bridge" where
  "handleGodotMessage P st content contentLength =
     (case JSON_parse P content of
        None \<Rightarrow> writeToStdout st content contentLength
      | Some msg \<Rightarrow>
          if waitingForInitialize st then
            (case get_prop msg (ascii ''id'') of
               Inl e \<Rightarrow> writeToStdout st content contentLength
             | Inr i \<Rightarrow>
                 if strict_equals i (Some (initializeRequestId st))
                    \<and> get_prop msg (ascii ''result'') \<noteq> Inr None
                 then
                   (let st1 = writeToStdout st content contentLength;
                        st2 = st1\<lparr>waitingForInitialize := False, wasInitialized := True\<rparr>;
                        st3 = foldl (\<lambda>s notif. writeToStdout s (fst notif) (snd notif)) st2
                                (bufferedNotifications st2)
                    in st3\<lparr>bufferedNotifications := []\<rparr>)
                 else if get_prop msg (ascii ''method'') \<noteq> Inr None \<and> i = None
                 then st\<lparr>bufferedNotifications :=
                           bufferedNotifications st @ [(content, contentLength)]\<rparr>
                 else writeToStdout st content contentLength)
          else writeToStdout st content contentLength)"

definition sendNotificationToClient :: "platform \<Rightarrow> bridge \<Rightarrow> jsstring \<Rightarrow> json \<Rightarrow> bridge" where
  "sendNotificationToClient P st meth params =
     (let notification = JObj [(ascii ''jsonrpc'', JStr (ascii ''2.0'')),
                               (ascii ''method'', JStr meth),
                               (ascii ''params'', params)];
          content = JSON_stringify P notification
      in writeToStdout st content (byteLength content))"

definition resetConnectionState :: "bridge \<Rightarrow> bridge" where
  "resetConnectionState st =
     st\<lparr>tcpConnected := False, tcpBuffer := [], waitingForInitialize := False,
        initializeRequestId := JNull, bufferedNotifications := [], tcpSocket := None\<rparr>"

text \<open>\<open>new net.Socket()\<close> in \<open>connectToGodot\<close>: a fresh socket replaces \<open>tcpSocket\<close>.\<close>

definition connectToGodot :: "bridge \<Rightarrow> bridge" where
  "connectToGodot st = st\<lparr>tcpSocket := Some (Socket False)\<rparr>"

text \<open>
  The loop \<open>for (const msg of pendingMessages) tcpSocket.write(...)\<close>, which the connect
  callback and the warm-up timer both run.
\<close>

definition flush_pending :: "socket \<Rightarrow> bridge \<Rightarrow> bridge" where
  "flush_pending sock st =
     foldl (\<lambda>s msg. socket_write sock (frame (byteLength (fst msg)) (fst msg)) s) st
       (pendingMessages st)"

definition restart_params :: json where
  "restart_params =
     JObj [(ascii ''type'', JNum 2),
           (ascii ''message'',
            JStr (ascii ''Godot LSP server restarted. You may need to reopen files for diagnostics.''))]"

text \<open>
  The callback of \<open>tcpSocket.connect\<close>. It starts the warm-up timer on a reconnect; the
  timer's own callback is \<open>onWarmupTimeout\<close>. Reading \<open>tcpSocket\<close> while it is null
  throws.
\<close>

definition onConnect :: "platform \<Rightarrow> bridge \<Rightarrow> jserror + bridge" where
  "onConnect P st =
     (case tcpSocket st of
        None \<Rightarrow> Inl TypeError
      | Some sock \<Rightarrow>
          (let st1 = st\<lparr>tcpConnected := True, reconnectAttempts := 0\<rparr> in
           if isReconnecting st1 then
             (let st2 = st1\<lparr>pendingMessages := [], isReconnecting := False,
                            isWarmingUp := True\<rparr>
              in Inr (if wasInitialized st2
                      then sendNotificationToClient P st2 (ascii ''window/showMessage'')
                             restart_params
                      else st2))
           else Inr ((flush_pending sock st1)\<lparr>pendingMessages := []\<rparr>)))"

definition onWarmupTimeout :: "bridge \<Rightarrow> jserror + bridge" where
  "onWarmupTimeout st =
     (let st1 = st\<lparr>isWarmingUp := False\<rparr> in
      case tcpSocket st1 of
        None \<Rightarrow>
          if pendingMessages st1 = [] then Inr (st1\<lparr>pendingMessages := []\<rparr>)
          else Inl TypeError
      | Some sock \<Rightarrow> Inr ((flush_pending sock st1)\<lparr>pendingMessages := []\<rparr>))"

text \<open>
  \<open>MAX_RECONNECT_ATTEMPTS\<close> is -1, so the branch that gives up is never taken and
  \<open>scheduleReconnect\<close> always arms the timer while the bridge is meant to run.
\<close>

definition scheduleReconnect :: "bridge \<Rightarrow> bridge" where
  "scheduleReconnect st =
     (let st1 = st\<lparr>reconnectTimer := False\<rparr> in
      if \<not> shouldKeepRunning st1 then st1
      else st1\<lparr>reconnectAttempts := reconnectAttempts st1 + 1, isReconnecting := True,
               reconnectTimer := True\<rparr>)"

text \<open>The socket's \<open>close\<close> event; the platform has destroyed the socket by then.\<close>

definition onClose :: "bridge \<Rightarrow> bridge" where
  "onClose st =
     (let st1 = st\<lparr>tcpSocket := map_option (\<lambda>sock. Socket True) (tcpSocket st),
                    tcpConnected := False\<rparr>
      in if \<not> shouldKeepRunning st1 then st1 else scheduleReconnect st1)"

text \<open>
  The reconnect timer's callback, up to the point where it waits for the new connection
  attempt; the attempt then ends in \<open>onConnect\<close> or in another \<open>scheduleReconnect\<close>.
\<close>

definition onReconnectTimer :: "bridge \<Rightarrow> bridge" where
  "onReconnectTimer st =
     (let st1 = st\<lparr>reconnectTimer := False\<rparr> in
      if \<not> shouldKeepRunning st1 then st1
      else connectToGodot (resetConnectionState st1))"

text \<open>The callback that \<open>setupStdinReader\<close> passes to \<open>extractMessages\<close>.\<close>

definition stdinMessage :: "platform \<Rightarrow> jsstring \<Rightarrow> nat \<Rightarrow> bridge \<Rightarrow> bridge" where
  "stdinMessage P content contentLength st =
     (if \<not> tcpConnected st \<or> isWarmingUp st
      then st\<lparr>pendingMessages := pendingMessages st @ [(content, contentLength)]\<rparr>
      else sendToGodot P st content contentLength)"

definition onStdinData :: "platform \<Rightarrow> byte list \<Rightarrow> bridge \<Rightarrow> bridge" where
  "onStdinData P chunk st =
     (let st1 = st\<lparr>stdinBuffer := stdinBuffer st @ chunk\<rparr>;
          (remaining, st2) = extractMessages (stdinBuffer st1) (stdinMessage P) st1
      in st2\<lparr>stdinBuffer := remaining\<rparr>)"

definition onTcpData :: "platform \<Rightarrow> byte list \<Rightarrow> bridge \<Rightarrow> bridge" where
  "onTcpData P chunk st =
     (let st1 = st\<lparr>tcpBuffer := tcpBuffer st @ chunk\<rparr>;
          (remaining, st2) =
            extractMessages (tcpBuffer st1)
              (\<lambda>content contentLength s. handleGodotMessage P s content contentLength) st1
      in st2\<lparr>tcpBuffer := remaining\<rparr>)"

section \<open>Vocabulary of the properties\<close>

text \<open>What a relayed or forwarded message looks like on the output stream.\<close>

definition relayed :: "message \<Rightarrow> jsstring" where
  "relayed m = frame (byteLength (fst m)) (fst m)"

text \<open>
  The two tests of \<open>handleGodotMessage\<close> on a payload. A notification parses, has no
  \<open>id\<close> and has a \<open>method\<close>. The awaited response for the tracked id \<open>t\<close> parses, has
  an \<open>id\<close> strictly equal to \<open>t\<close> and has a \<open>result\<close>. No payload is both.
\<close>

definition is_notification :: "platform \<Rightarrow> jsstring \<Rightarrow> bool" where
  "is_notification P content =
     (case JSON_parse P content of
        None \<Rightarrow> False
      | Some msg \<Rightarrow>
          get_prop msg (ascii ''id'') = Inr None
          \<and> (case get_prop msg (ascii ''method'') of Inr (Some m) \<Rightarrow> True | _ \<Rightarrow> False))"

definition is_awaited_response :: "platform \<Rightarrow> json \<Rightarrow> jsstring \<Rightarrow> bool" where
  "is_awaited_response P t content =
     (case JSON_parse P content of
        None \<Rightarrow> False
      | Some msg \<Rightarrow>
          (case get_prop msg (ascii ''id'') of
             Inl e \<Rightarrow> False
           | Inr i \<Rightarrow>
               strict_equals i (Some t)
               \<and> (case get_prop msg (ascii ''result'') of Inr (Some r) \<Rightarrow> True | _ \<Rightarrow> False)))"

text \<open>Messages from the socket, one after the other, through \<open>handleGodotMessage\<close>.\<close>

definition tcpMessages :: "platform \<Rightarrow> bridge \<Rightarrow> message list \<Rightarrow> bridge" where
  "tcpMessages P st ms = foldl (\<lambda>s m. handleGodotMessage P s (fst m) (snd m)) st ms"

subsection \<open>Sample payloads\<close>

text \<open>
  Concrete runs need concrete values of \<open>JSON.parse\<close> and \<open>JSON.stringify\<close>. The sample
  platform tabulates both on the payloads below, which is all the runs evaluate.
\<close>

definition initialize_request_text :: jsstring where
  \<open>initialize_request_text =
     ascii ''{"jsonrpc":"2.0","id":1,"method":"initialize","params":{}}''\<close>

definition initialize_response_text :: jsstring where
  \<open>initialize_response_text = ascii ''{"jsonrpc":"2.0","id":1,"result":{}}''\<close>

definition initialize_error_text :: jsstring where
  \<open>initialize_error_text =
     ascii ''{"jsonrpc":"2.0","id":1,"error":{"code":-32600,"message":"no"}}''\<close>

definition notification_A_text :: jsstring where
  \<open>notification_A_text = ascii ''{"jsonrpc":"2.0","method":"A"}''\<close>

definition notification_B_text :: jsstring where
  \<open>notification_B_text = ascii ''{"jsonrpc":"2.0","method":"B"}''\<close>

definition notification_C_text :: jsstring where
  \<open>notification_C_text = ascii ''{"jsonrpc":"2.0","method":"C"}''\<close>

definition bare_text :: jsstring where
  \<open>bare_text = ascii ''{"jsonrpc":"2.0"}''\<close>

definition did_open_text :: jsstring where
  \<open>did_open_text =
     ascii ''{"jsonrpc":"2.0","method":"textDocument/didOpen","params":{"uri":"file://C:/a.gd"}}''\<close>

definition did_open_normalized_text :: jsstring where
  \<open>did_open_normalized_text =
     ascii ''{"jsonrpc":"2.0","method":"textDocument/didOpen","params":{"uri":"file:///C:/a.gd"}}''\<close>

definition restart_notice_text :: jsstring where
  \<open>restart_notice_text =
     ascii ''{"jsonrpc":"2.0","method":"window/showMessage","params":{"type":2,"message":"Godot LSP server restarted. You may need to reopen files for diagnostics."}}''\<close>

definition plain_text :: jsstring where
  "plain_text = ascii ''not json''"

definition jsonrpc2 :: "jsstring \<times> json" where
  "jsonrpc2 = (ascii ''jsonrpc'', JStr (ascii ''2.0''))"

definition sample_parse :: "jsstring \<Rightarrow> json option" where
  "sample_parse =
     map_of
       [(initialize_request_text,
         JObj [jsonrpc2, (ascii ''id'', JNum 1), (ascii ''method'', JStr (ascii ''initialize'')),
               (ascii ''params'', JObj [])]),
        (initialize_response_text,
         JObj [jsonrpc2, (ascii ''id'', JNum 1), (ascii ''result'', JObj [])]),
        (initialize_error_text,
         JObj [jsonrpc2, (ascii ''id'', JNum 1),
               (ascii ''error'', JObj [(ascii ''code'', JNum (- 32600)),
                                       (ascii ''message'', JStr (ascii ''no''))])]),
        (notification_A_text, JObj [jsonrpc2, (ascii ''method'', JStr (ascii ''A''))]),
        (notification_B_text, JObj [jsonrpc2, (ascii ''method'', JStr (ascii ''B''))]),
        (notification_C_text, JObj [jsonrpc2, (ascii ''method'', JStr (ascii ''C''))]),
        (bare_text, JObj [jsonrpc2]),
        (did_open_text,
         JObj [jsonrpc2, (ascii ''method'', JStr (ascii ''textDocument/didOpen'')),
               (ascii ''params'', JObj [(ascii ''uri'', JStr (ascii ''file://C:/a.gd''))])])]"

definition sample_stringify :: "json \<Rightarrow> jsstring" where
  "sample_stringify v =
     (if v = JObj [jsonrpc2, (ascii ''method'', JStr (ascii ''window/showMessage'')),
                   (ascii ''params'', restart_params)]
      then restart_notice_text
      else if v = JObj [jsonrpc2, (ascii ''method'', JStr (ascii ''textDocument/didOpen'')),
                        (ascii ''params'', JObj [(ascii ''uri'', JStr (ascii ''file:///C:/a.gd''))])]
      then did_open_normalized_text
      else if v = JObj [jsonrpc2, (ascii ''id'', JNum 1),
                        (ascii ''method'', JStr (ascii ''initialize'')),
                        (ascii ''params'', JObj [])]
      then initialize_request_text
      else [])"

definition sample_platform :: platform where
  "sample_platform = \<lparr> JSON_parse = sample_parse, JSON_stringify = sample_stringify \<rparr>"

definition awaiting_1 :: bridge where
  "awaiting_1 = initial_bridge\<lparr>waitingForInitialize := True, initializeRequestId := JNum 1\<rparr>"

definition awaiting_1_holding_A :: bridge where
  "awaiting_1_holding_A = awaiting_1\<lparr>bufferedNotifications := [(notification_A_text, 30)]\<rparr>"

subsection \<open>Incremental delivery\<close>

text \<open>
  One I/O delivery, as both \<open>data\<close> handlers perform it: the chunk is appended to the
  carried-over remainder and extraction runs on the result.
\<close>

definition feed ::
  "(jsstring \<Rightarrow> nat \<Rightarrow> 's \<Rightarrow> 's) \<Rightarrow> byte list \<times> 's \<Rightarrow> byte list \<Rightarrow> byte list \<times> 's" where
  "feed onMessage carried chunk = extractMessages (fst carried @ chunk) onMessage (snd carried)"

text \<open>Sample input: ASCII text as bytes, and a callback that records what it receives.\<close>

definition bytes_of :: "string \<Rightarrow> byte list" where
  "bytes_of s = map (\<lambda>c. of_nat (of_char c)) s"

definition two_frames :: "byte list" where
  "two_frames = bytes_of ''Content-Length: 2'' @ HEADER_DELIMITER @ bytes_of ''{}''
                @ bytes_of ''Content-Length: 3'' @ HEADER_DELIMITER @ bytes_of ''[1]''"

definition collect :: "jsstring \<Rightarrow> nat \<Rightarrow> message list \<Rightarrow> message list" where
  "collect content contentLength acc = acc @ [(content, contentLength)]"

subsection \<open>Well-formed text and frames on the wire\<close>

text \<open>
  A string is well formed when every surrogate is half of a pair. \<open>toString('utf8')\<close>
  yields only such strings, and so does \<open>JSON.stringify\<close> (it escapes a lone surrogate).
\<close>

fun well_formed :: "jsstring \<Rightarrow> bool" where
  "well_formed [] = True"
| "well_formed (u # us) =
     (if is_high_surrogate u then
        (case us of [] \<Rightarrow> False | v # vs \<Rightarrow> is_low_surrogate v \<and> well_formed vs)
      else \<not> is_low_surrogate u \<and> well_formed us)"

text \<open>The bytes of a string of ASCII characters, one byte for each.\<close>

definition to_bytes :: "jsstring \<Rightarrow> byte list" where
  "to_bytes a = map (\<lambda>u. of_nat (unat u)) a"

text \<open>The header line of \<open>frame\<close>, and a frame as the bytes that reach the stream.\<close>

definition header_text :: "nat \<Rightarrow> jsstring" where
  "header_text n = ascii ''Content-Length: '' @ decimal n"

definition wire :: "jsstring \<Rightarrow> byte list" where
  "wire content = utf8_encode (frame (byteLength content) content)"

text \<open>
  Sample input: the four code units of U+00E9, U+20AC and the surrogate pair of U+1F600,
  nine bytes in UTF-8; and a header whose length field is not a number.
\<close>

definition non_ascii_text :: jsstring where
  "non_ascii_text = [0xE9, 0x20AC, 0xD83D, 0xDE00]"

definition malformed_header :: "byte list" where
  "malformed_header = bytes_of ''Content-Length: abc''"

subsection \<open>What is written, and runs of the event handlers\<close>

text \<open>A payload as both writers frame it: the header carries its UTF-8 byte length.\<close>

definition framed :: "jsstring \<Rightarrow> jsstring" where
  "framed content = frame (byteLength content) content"

text \<open>
  The content that \<open>sendToGodot\<close> forwards for a payload: the payload re-serialised after
  the URI normalisation when it parses (and is not \<open>null\<close>), the payload itself
  otherwise.
\<close>

definition normalizedContent :: "platform \<Rightarrow> jsstring \<Rightarrow> jsstring" where
  "normalizedContent P content =
     (case JSON_parse P content of
        None \<Rightarrow> content
      | Some msg \<Rightarrow>
          (case get_prop msg (ascii ''method'') of
             Inl e \<Rightarrow> content
           | Inr m \<Rightarrow> JSON_stringify P (normalizeUrisInObject msg)))"

text \<open>Messages from stdin, one after the other, through the reader's callback.\<close>

definition stdinMessages :: "platform \<Rightarrow> bridge \<Rightarrow> message list \<Rightarrow> bridge" where
  "stdinMessages P st ms = foldl (\<lambda>s m. stdinMessage P (fst m) (snd m) s) st ms"

text \<open>The restart notification as \<open>sendNotificationToClient\<close> serialises it.\<close>

definition restart_notice :: "platform \<Rightarrow> jsstring" where
  "restart_notice P =
     JSON_stringify P
       (JObj [(ascii ''jsonrpc'', JStr (ascii ''2.0'')),
              (ascii ''method'', JStr (ascii ''window/showMessage'')),
              (ascii ''params'', restart_params)])"

text \<open>
  A reconnect: the socket closes, messages arrive from stdin, the reconnect timer fires
  (the connection state is reset and a new socket connects), more messages arrive, and
  the connect callback runs.
\<close>

definition reconnect_run ::
  "platform \<Rightarrow> bridge \<Rightarrow> message list \<Rightarrow> message list \<Rightarrow> jserror + bridge" where
  "reconnect_run P st ms1 ms2 =
     onConnect P
       (stdinMessages P (onReconnectTimer (stdinMessages P (onClose st) ms1)) ms2)"

text \<open>
  Sample states: the bridge after its first connection, and after the initialize request
  with id 1 has been forwarded and its response relayed.
\<close>

definition connected_bridge :: bridge where
  "connected_bridge = initial_bridge\<lparr>tcpSocket := Some (Socket False), tcpConnected := True\<rparr>"


definition session_bridge :: bridge where
  "session_bridge =
     connected_bridge\<lparr>initializeRequestId := JNum 1, wasInitialized := True,
                       stdout := [framed initialize_response_text],
                       tcpWritten := [framed initialize_request_text]\<rparr>"

section \<open>Auxiliary facts\<close>

subsection \<open>Inbound messages, case by case\<close>

lemma get_prop_no_error:
  "get_prop msg k = Inr v \<Longrightarrow> \<exists>v'. get_prop msg k' = Inr v'"
  by (cases msg) auto

lemma handle_idle:
  "\<not> waitingForInitialize st \<Longrightarrow> handleGodotMessage P st c n = writeToStdout st c n"
  by (simp add: handleGodotMessage_def split: option.splits)

lemma handle_held:
  assumes "waitingForInitialize st" "is_notification P c"
  shows "handleGodotMessage P st c n
         = st\<lparr>bufferedNotifications := bufferedNotifications st @ [(c, n)]\<rparr>"
  using assms
  by (auto simp: handleGodotMessage_def is_notification_def split: option.splits sum.splits)

lemma handle_pass:
  assumes "waitingForInitialize st" "\<not> is_notification P c"
    "\<not> is_awaited_response P (initializeRequestId st) c"
  shows "handleGodotMessage P st c n = writeToStdout st c n"
proof (cases "JSON_parse P c")
  case None
  then show ?thesis by (simp add: handleGodotMessage_def)
next
  case (Some msg)
  show ?thesis
  proof (cases "get_prop msg (ascii ''id'')")
    case (Inl e)
    with Some show ?thesis by (simp add: handleGodotMessage_def)
  next
    case (Inr i)
    then obtain r m where r: "get_prop msg (ascii ''result'') = Inr r"
      and m: "get_prop msg (ascii ''method'') = Inr m"
      using get_prop_no_error by blast
    with Some Inr assms show ?thesis
      by (auto simp: handleGodotMessage_def is_notification_def is_awaited_response_def
          split: option.splits)
  qed
qed

lemma foldl_writeToStdout:
  "foldl (\<lambda>s notif. writeToStdout s (fst notif) (snd notif)) st ms
   = st\<lparr>stdout := stdout st @ map relayed ms\<rparr>"
  by (induction ms arbitrary: st) (simp_all add: writeToStdout_def relayed_def)

lemma handle_response:
  assumes "waitingForInitialize st" "is_awaited_response P (initializeRequestId st) c"
  shows "handleGodotMessage P st c n
         = st\<lparr>stdout := stdout st @ relayed (c, n) # map relayed (bufferedNotifications st),
               waitingForInitialize := False, wasInitialized := True,
               bufferedNotifications := []\<rparr>"
proof -
  from assms(2) obtain msg i r where p: "JSON_parse P c = Some msg"
    and i: "get_prop msg (ascii ''id'') = Inr i"
      "strict_equals i (Some (initializeRequestId st))"
    and r: "get_prop msg (ascii ''result'') = Inr (Some r)"
    by (auto simp: is_awaited_response_def split: option.splits sum.splits)
  with assms(1) have "handleGodotMessage P st c n
      = (foldl (\<lambda>s notif. writeToStdout s (fst notif) (snd notif))
           ((writeToStdout st c n)\<lparr>waitingForInitialize := False, wasInitialized := True\<rparr>)
           (bufferedNotifications st))\<lparr>bufferedNotifications := []\<rparr>"
    by (simp add: handleGodotMessage_def writeToStdout_def)
  then show ?thesis
    by (simp add: foldl_writeToStdout) (simp add: writeToStdout_def relayed_def)
qed

lemma tcpMessages_idle:
  "\<not> waitingForInitialize st \<Longrightarrow>
   tcpMessages P st ms = st\<lparr>stdout := stdout st @ map relayed ms\<rparr>"
proof (induction ms arbitrary: st)
  case Nil
  then show ?case by (simp add: tcpMessages_def)
next
  case (Cons m ms)
  have step: "tcpMessages P st (m # ms) = tcpMessages P (writeToStdout st (fst m) (snd m)) ms"
    using Cons.prems by (simp add: tcpMessages_def handle_idle)
  have "\<not> waitingForInitialize (writeToStdout st (fst m) (snd m))"
    using Cons.prems by (simp add: writeToStdout_def)
  from Cons.IH [OF this] step show ?case
    by (simp add: writeToStdout_def relayed_def)
qed

lemma tcpMessages_waiting:
  assumes "waitingForInitialize st"
    and "\<forall>m \<in> set ms. \<not> is_awaited_response P (initializeRequestId st) (fst m)"
  shows "tcpMessages P st ms
         = st\<lparr>stdout := stdout st
                    @ map relayed (filter (\<lambda>m. \<not> is_notification P (fst m)) ms),
               bufferedNotifications := bufferedNotifications st
                    @ filter (\<lambda>m. is_notification P (fst m)) ms\<rparr>"
  using assms
proof (induction ms arbitrary: st)
  case Nil
  then show ?case by (simp add: tcpMessages_def)
next
  case (Cons m ms)
  let ?s = "handleGodotMessage P st (fst m) (snd m)"
  have step: "tcpMessages P st (m # ms) = tcpMessages P ?s ms"
    by (simp add: tcpMessages_def)
  show ?case
  proof (cases "is_notification P (fst m)")
    case True
    with Cons.prems have s: "?s = st\<lparr>bufferedNotifications := bufferedNotifications st @ [m]\<rparr>"
      by (simp add: handle_held)
    with Cons.prems have "waitingForInitialize ?s"
      "\<forall>m \<in> set ms. \<not> is_awaited_response P (initializeRequestId ?s) (fst m)"
      by simp_all
    from Cons.IH [OF this] step s True show ?thesis by simp
  next
    case False
    with Cons.prems have s: "?s = writeToStdout st (fst m) (snd m)"
      by (simp add: handle_pass)
    with Cons.prems have "waitingForInitialize ?s"
      "\<forall>m \<in> set ms. \<not> is_awaited_response P (initializeRequestId ?s) (fst m)"
      by (simp_all add: writeToStdout_def)
    from Cons.IH [OF this] step s False show ?thesis
      by (simp add: writeToStdout_def relayed_def)
  qed
qed

lemmas sample_texts =
  initialize_request_text_def initialize_response_text_def initialize_error_text_def
  notification_A_text_def notification_B_text_def notification_C_text_def bare_text_def
  did_open_text_def ascii_def

lemma sample_parse_simps:
  "sample_parse notification_A_text = Some (JObj [jsonrpc2, (ascii ''method'', JStr (ascii ''A''))])"
  "sample_parse notification_B_text = Some (JObj [jsonrpc2, (ascii ''method'', JStr (ascii ''B''))])"
  "sample_parse notification_C_text = Some (JObj [jsonrpc2, (ascii ''method'', JStr (ascii ''C''))])"
  "sample_parse bare_text = Some (JObj [jsonrpc2])"
  "sample_parse initialize_response_text
     = Some (JObj [jsonrpc2, (ascii ''id'', JNum 1), (ascii ''result'', JObj [])])"
  by (simp_all add: sample_parse_def sample_texts)

lemma sample_classify:
  "is_notification sample_platform notification_A_text"
  "is_notification sample_platform notification_B_text"
  "is_notification sample_platform notification_C_text"
  "\<not> is_awaited_response sample_platform (JNum 1) notification_A_text"
  "\<not> is_awaited_response sample_platform (JNum 1) notification_B_text"
  "is_awaited_response sample_platform (JNum 1) initialize_response_text"
  by (simp_all add: is_notification_def is_awaited_response_def sample_platform_def
      sample_parse_simps jsonrpc2_def ascii_def)

lemma handle_not_awaited:
  assumes "waitingForInitialize st" "\<not> is_awaited_response P (initializeRequestId st) c"
  shows "handleGodotMessage P st c n
         = (if is_notification P c
            then st\<lparr>bufferedNotifications := bufferedNotifications st @ [(c, n)]\<rparr>
            else writeToStdout st c n)"
  using assms by (simp add: handle_held handle_pass)

lemma sample_parse_error:
  "sample_parse initialize_error_text
   = Some (JObj [jsonrpc2, (ascii ''id'', JNum 1),
               (ascii ''error'', JObj [(ascii ''code'', JNum (- 32600)),
                                       (ascii ''message'', JStr (ascii ''no''))])])"
  by (simp add: sample_parse_def sample_texts)

subsection \<open>Extraction over appended input\<close>

declare extractMessages.simps [simp del]

lemma take_within: "n \<le> length xs \<Longrightarrow> take n (xs @ ys) = take n xs"
  by simp

lemma indexOf_append:
  "indexOf a needle = Some i \<Longrightarrow> indexOf (a @ b) needle = Some i"
proof (induction a arbitrary: i)
  case Nil
  then show ?case by (cases b) (simp_all split: if_splits)
next
  case (Cons x a)
  show ?case
  proof (cases "take (length needle) (x # a) = needle")
    case True
    then have len: "length needle \<le> length (x # a)"
      using indexOf_bound [of "x # a" needle 0] by simp
    then have "take (length needle) ((x # a) @ b) = take (length needle) (x # a)"
      by (rule take_within)
    with True Cons.prems show ?thesis by simp
  next
    case False
    with Cons.prems obtain j where j: "indexOf a needle = Some j" "i = Suc j"
      by auto
    then have "j + length needle \<le> length a"
      by (simp add: indexOf_bound)
    then have "length needle \<le> length (x # a)"
      by simp
    then have "take (length needle) ((x # a) @ b) = take (length needle) (x # a)"
      by (rule take_within)
    with False j Cons.IH [OF j(1)] show ?thesis by simp
  qed
qed

lemma extractMessages_Nil: "extractMessages [] f st = ([], st)"
  by (subst extractMessages.simps) (simp add: HEADER_DELIMITER_def)

lemma extractMessages_append:
  "extractMessages (a @ b) f st
   = (case extractMessages a f st of (r, st') \<Rightarrow> extractMessages (r @ b) f st')"
proof (induction a f st rule: extractMessages.induct)
  case (1 remaining onMessage st)
  show ?case
  proof (cases "indexOf remaining HEADER_DELIMITER")
    case None
    then have "extractMessages remaining onMessage st = (remaining, st)"
      by (subst extractMessages.simps) simp
    then show ?thesis by simp
  next
    case (Some headerEnd)
    then have bound: "headerEnd + 4 \<le> length remaining"
      using indexOf_bound [of remaining HEADER_DELIMITER headerEnd]
      by (simp add: HEADER_DELIMITER_def)
    have idx: "indexOf (remaining @ b) HEADER_DELIMITER = Some headerEnd"
      using Some by (rule indexOf_append)
    have hdr: "take headerEnd (remaining @ b) = take headerEnd remaining"
      using bound by simp
    show ?thesis
    proof (cases "header_match (toString_utf8 (take headerEnd remaining))")
      case None
      have l: "extractMessages (remaining @ b) onMessage st
               = extractMessages (drop (headerEnd + 4) remaining @ b) onMessage st"
        using idx hdr None bound by (subst extractMessages.simps) simp
      have r: "extractMessages remaining onMessage st
               = extractMessages (drop (headerEnd + 4) remaining) onMessage st"
        using Some None by (subst extractMessages.simps) simp
      from "1.IH"(1) [OF Some None] l r show ?thesis by simp
    next
      case (Some ds)
      note m = this
      let ?n = "parseInt ds"
      show ?thesis
      proof (cases "length remaining < headerEnd + 4 + ?n")
        case True
        have "extractMessages remaining onMessage st = (remaining, st)"
          using \<open>indexOf remaining HEADER_DELIMITER = Some headerEnd\<close> m True
          by (subst extractMessages.simps) (simp add: Let_def)
        then show ?thesis by simp
      next
        case False
        let ?st = "onMessage (toString_utf8 (take ?n (drop (headerEnd + 4) remaining))) ?n st"
        have body: "take ?n (drop (headerEnd + 4) (remaining @ b))
                    = take ?n (drop (headerEnd + 4) remaining)"
          using False by simp
        have l: "extractMessages (remaining @ b) onMessage st
                 = extractMessages (drop (headerEnd + 4 + ?n) remaining @ b) onMessage ?st"
          using idx hdr m False body
          by (subst extractMessages.simps) (simp add: Let_def)
        have r: "extractMessages remaining onMessage st
                 = extractMessages (drop (headerEnd + 4 + ?n) remaining) onMessage ?st"
          using \<open>indexOf remaining HEADER_DELIMITER = Some headerEnd\<close> m False
          by (subst extractMessages.simps) (simp add: Let_def)
        from "1.IH"(2) [OF \<open>indexOf remaining HEADER_DELIMITER = Some headerEnd\<close> m refl refl refl False]
          l r show ?thesis by simp
      qed
    qed
  qed
qed

lemma foldl_feed:
  "foldl (feed f) (extractMessages a f st) chunks = extractMessages (a @ concat chunks) f st"
proof (induction chunks arbitrary: a st)
  case Nil
  show ?case by simp
next
  case (Cons c chunks)
  obtain r st' where e: "extractMessages a f st = (r, st')"
    by (cases "extractMessages a f st")
  have "feed f (extractMessages a f st) c = extractMessages (a @ c) f st"
    by (simp add: feed_def e extractMessages_append [of a c])
  then have "foldl (feed f) (extractMessages a f st) (c # chunks)
             = foldl (feed f) (extractMessages (a @ c) f st) chunks"
    by simp
  also have "\<dots> = extractMessages ((a @ c) @ concat chunks) f st"
    by (rule Cons.IH)
  finally show ?case by simp
qed

lemma concat_singletons: "concat (map (\<lambda>b. [b]) xs) = xs"
  by (induction xs) simp_all

lemma two_frames_whole:
  "extractMessages two_frames collect [] = ([], [(ascii ''{}'', 2), (ascii ''[1]'', 3)])"
  by (simp add: extractMessages.simps two_frames_def bytes_of_def ascii_def HEADER_DELIMITER_def
      match_here_def canon_def is_digit_def is_space_def parseInt_def collect_def)

text \<open>Both \<open>data\<close> handlers are one \<open>feed\<close> step on their buffer.\<close>

lemma onStdinData_feed:
  "onStdinData P chunk st
   = (case feed (stdinMessage P) (stdinBuffer st, st\<lparr>stdinBuffer := stdinBuffer st @ chunk\<rparr>)
            chunk of
        (remaining, st2) \<Rightarrow> st2\<lparr>stdinBuffer := remaining\<rparr>)"
  by (simp add: onStdinData_def feed_def Let_def)

lemma onTcpData_feed:
  "onTcpData P chunk st
   = (case feed (\<lambda>content contentLength s. handleGodotMessage P s content contentLength)
            (tcpBuffer st, st\<lparr>tcpBuffer := tcpBuffer st @ chunk\<rparr>) chunk of
        (remaining, st2) \<Rightarrow> st2\<lparr>tcpBuffer := remaining\<rparr>)"
  by (simp add: onTcpData_def feed_def Let_def)

subsection \<open>Decoding what was encoded\<close>

lemma unat_byte: "x < 256 \<Longrightarrow> unat (of_nat x :: byte) = x"
  by (simp add: unat_of_nat)

lemma unat_unit: "x < 65536 \<Longrightarrow> unat (of_nat x :: 16 word) = x"
  by (simp add: unat_of_nat)

lemma dec_ascii:
  "unat b < 0x80 \<Longrightarrow> toString_utf8 (b # bs) = of_nat (unat b) # toString_utf8 bs"
  by (simp add: Let_def)

lemma dec_2:
  "0xC2 \<le> unat b \<Longrightarrow> unat b \<le> 0xDF \<Longrightarrow> in_range 0x80 0xBF c1 \<Longrightarrow>
   toString_utf8 (b # c1 # r)
   = utf16_units ((unat b mod 0x20) * 0x40 + unat c1 mod 0x40) @ toString_utf8 r"
  by (simp add: Let_def)

lemma dec_3:
  "0xE0 \<le> unat b \<Longrightarrow> unat b \<le> 0xEF \<Longrightarrow>
   in_range (if unat b = 0xE0 then 0xA0 else 0x80) (if unat b = 0xED then 0x9F else 0xBF) c1 \<Longrightarrow>
   in_range 0x80 0xBF c2 \<Longrightarrow>
   toString_utf8 (b # c1 # c2 # r)
   = utf16_units (((unat b mod 0x10) * 0x40 + unat c1 mod 0x40) * 0x40 + unat c2 mod 0x40)
     @ toString_utf8 r"
  by (simp add: Let_def)

lemma dec_4:
  "0xF0 \<le> unat b \<Longrightarrow> unat b \<le> 0xF4 \<Longrightarrow>
   in_range (if unat b = 0xF0 then 0x90 else 0x80) (if unat b = 0xF4 then 0x8F else 0xBF) c1 \<Longrightarrow>
   in_range 0x80 0xBF c2 \<Longrightarrow> in_range 0x80 0xBF c3 \<Longrightarrow>
   toString_utf8 (b # c1 # c2 # c3 # r)
   = utf16_units ((((unat b mod 0x08) * 0x40 + unat c1 mod 0x40) * 0x40 + unat c2 mod 0x40)
                   * 0x40 + unat c3 mod 0x40)
     @ toString_utf8 r"
  by (simp add: Let_def)

declare toString_utf8.simps(2) [simp del]

lemma mod_shift: "q < k \<Longrightarrow> (m * k + q) mod k = (q::nat)"
  by simp

lemma split64:
  obtains q r :: nat where "cp = q * 64 + r" "r < 64" "cp div 64 = q" "cp mod 64 = r"
  using div_mult_mod_eq [of cp 64] mod_less_divisor [of 64 cp] by (metis zero_less_numeral)

lemma cont_byte:
  assumes "r < 64"
  shows "unat (of_nat (0x80 + r) :: byte) = 0x80 + r"
    and "in_range 0x80 0xBF (of_nat (0x80 + r))"
    and "unat (of_nat (0x80 + r) :: byte) mod 0x40 = r"
proof -
  show u: "unat (of_nat (0x80 + r) :: byte) = 0x80 + r"
    using assms by (intro unat_byte) linarith
  show "in_range 0x80 0xBF (of_nat (0x80 + r))"
    unfolding in_range_def u using assms by linarith
  show "unat (of_nat (0x80 + r) :: byte) mod 0x40 = r"
    unfolding u using mod_shift [OF assms, of 2] by simp
qed

lemma decode_bytes_1:
  assumes "cp < 0x80"
  shows "toString_utf8 (utf8_bytes cp @ rest) = utf16_units cp @ toString_utf8 rest"
proof -
  have b0: "unat (of_nat cp :: byte) = cp"
    using assms by (intro unat_byte) linarith
  have "toString_utf8 ((of_nat cp :: byte) # rest) = of_nat cp # toString_utf8 rest"
    using dec_ascii [of "of_nat cp" rest] assms by (simp only: b0)
  with assms show ?thesis
    by (simp add: utf8_bytes_def utf16_units_def)
qed

lemma decode_bytes_2:
  assumes "0x80 \<le> cp" "cp < 0x800"
  shows "toString_utf8 (utf8_bytes cp @ rest) = utf16_units cp @ toString_utf8 rest"
proof -
  obtain q r where d: "cp = q * 64 + r" "r < 64" "cp div 64 = q" "cp mod 64 = r"
    by (rule split64)
  have q: "2 \<le> q" "q < 32"
    using d(1,2) assms by linarith+
  let ?b0 = "of_nat (0xC0 + q) :: byte"
  let ?b1 = "of_nat (0x80 + r) :: byte"
  have b0: "unat ?b0 = 0xC0 + q"
    using q by (intro unat_byte) linarith
  have r0: "0xC2 \<le> unat ?b0" "unat ?b0 \<le> 0xDF"
    unfolding b0 using q by linarith+
  have m0: "unat ?b0 mod 0x20 = q"
    unfolding b0 using mod_shift [OF q(2), of 6] by simp
  have v: "(unat ?b0 mod 0x20) * 0x40 + unat ?b1 mod 0x40 = cp"
    unfolding m0 cont_byte(3) [OF d(2)] using d(1) by simp
  have "toString_utf8 (?b0 # ?b1 # rest) = utf16_units cp @ toString_utf8 rest"
    using dec_2 [OF r0 cont_byte(2) [OF d(2)], of rest] by (simp only: v)
  moreover have "utf8_bytes cp = [?b0, ?b1]"
    using assms d(3,4) by (simp add: utf8_bytes_def)
  ultimately show ?thesis by simp
qed

lemma decode_bytes_3:
  assumes "0x800 \<le> cp" "cp < 0x10000" "\<not> (0xD800 \<le> cp \<and> cp < 0xE000)"
  shows "toString_utf8 (utf8_bytes cp @ rest) = utf16_units cp @ toString_utf8 rest"
proof -
  obtain a r where d: "cp = a * 64 + r" "r < 64" "cp div 64 = a" "cp mod 64 = r"
    by (rule split64)
  obtain q1 q2 where e: "a = q1 * 64 + q2" "q2 < 64" "a div 64 = q1" "a mod 64 = q2"
    by (rule split64)
  have top: "cp div 0x1000 = q1"
    using d(3) e(3) by (simp add: div_mult2_eq [symmetric])
  have q1: "q1 < 16"
    using d(1,2) e(1,2) assms by linarith
  let ?b0 = "of_nat (0xE0 + q1) :: byte"
  let ?b1 = "of_nat (0x80 + q2) :: byte"
  let ?b2 = "of_nat (0x80 + r) :: byte"
  have b0: "unat ?b0 = 0xE0 + q1"
    using q1 by (intro unat_byte) linarith
  have r0: "0xE0 \<le> unat ?b0" "unat ?b0 \<le> 0xEF"
    unfolding b0 using q1 by linarith+
  have m0: "unat ?b0 mod 0x10 = q1"
    unfolding b0 using mod_shift [OF q1, of 14] by simp
  have lo: "q1 = 0 \<Longrightarrow> 32 \<le> q2"
    using d(1,2) e(1,2) assms by linarith
  have hi: "q1 = 13 \<Longrightarrow> q2 < 32"
    using d(1,2) e(1,2) assms by linarith
  have r1: "in_range (if unat ?b0 = 0xE0 then 0xA0 else 0x80)
                     (if unat ?b0 = 0xED then 0x9F else 0xBF) ?b1"
    unfolding in_range_def b0 cont_byte(1) [OF e(2)] using lo hi e(2) by auto
  have v: "((unat ?b0 mod 0x10) * 0x40 + unat ?b1 mod 0x40) * 0x40 + unat ?b2 mod 0x40 = cp"
    unfolding m0 cont_byte(3) [OF d(2)] cont_byte(3) [OF e(2)] using d(1) e(1) by simp
  have "toString_utf8 (?b0 # ?b1 # ?b2 # rest) = utf16_units cp @ toString_utf8 rest"
    using dec_3 [OF r0 r1 cont_byte(2) [OF d(2)], of rest] by (simp only: v)
  moreover have "utf8_bytes cp = [?b0, ?b1, ?b2]"
    using assms d(3,4) e(4) top by (simp add: utf8_bytes_def)
  ultimately show ?thesis by simp
qed

lemma decode_bytes_4:
  assumes "0x10000 \<le> cp" "cp < 0x110000"
  shows "toString_utf8 (utf8_bytes cp @ rest) = utf16_units cp @ toString_utf8 rest"
proof -
  obtain a r where d: "cp = a * 64 + r" "r < 64" "cp div 64 = a" "cp mod 64 = r"
    by (rule split64)
  obtain b q2 where e: "a = b * 64 + q2" "q2 < 64" "a div 64 = b" "a mod 64 = q2"
    by (rule split64)
  obtain q0 q1 where f: "b = q0 * 64 + q1" "q1 < 64" "b div 64 = q0" "b mod 64 = q1"
    by (rule split64)
  have mid: "cp div 0x1000 = b"
    using d(3) e(3) by (simp add: div_mult2_eq [symmetric])
  have "cp div 0x40000 = cp div 0x1000 div 64"
    by (simp add: div_mult2_eq [symmetric])
  then have top: "cp div 0x40000 = q0"
    using mid f(3) by simp
  have q0: "q0 < 5"
    using d(1,2) e(1,2) f(1,2) assms by linarith
  let ?b0 = "of_nat (0xF0 + q0) :: byte"
  let ?b1 = "of_nat (0x80 + q1) :: byte"
  let ?b2 = "of_nat (0x80 + q2) :: byte"
  let ?b3 = "of_nat (0x80 + r) :: byte"
  have b0: "unat ?b0 = 0xF0 + q0"
    using q0 by (intro unat_byte) linarith
  have r0: "0xF0 \<le> unat ?b0" "unat ?b0 \<le> 0xF4"
    unfolding b0 using q0 by linarith+
  have q08: "q0 < 8"
    using q0 by simp
  have m0: "unat ?b0 mod 0x08 = q0"
    unfolding b0 using mod_shift [OF q08, of 30] by simp
  have lo: "q0 = 0 \<Longrightarrow> 16 \<le> q1"
    using d(1,2) e(1,2) f(1,2) assms by linarith
  have hi: "q0 = 4 \<Longrightarrow> q1 < 16"
    using d(1,2) e(1,2) f(1,2) assms by linarith
  have r1: "in_range (if unat ?b0 = 0xF0 then 0x90 else 0x80)
                     (if unat ?b0 = 0xF4 then 0x8F else 0xBF) ?b1"
    unfolding in_range_def b0 cont_byte(1) [OF f(2)] using lo hi f(2) by auto
  have v: "(((unat ?b0 mod 0x08) * 0x40 + unat ?b1 mod 0x40) * 0x40 + unat ?b2 mod 0x40)
             * 0x40 + unat ?b3 mod 0x40 = cp"
    unfolding m0 cont_byte(3) [OF d(2)] cont_byte(3) [OF e(2)] cont_byte(3) [OF f(2)]
    using d(1) e(1) f(1) by simp
  have "toString_utf8 (?b0 # ?b1 # ?b2 # ?b3 # rest) = utf16_units cp @ toString_utf8 rest"
    using dec_4 [OF r0 r1 cont_byte(2) [OF e(2)] cont_byte(2) [OF d(2)], of rest]
    by (simp only: v)
  moreover have "utf8_bytes cp = [?b0, ?b1, ?b2, ?b3]"
    using assms d(3,4) e(4) f(4) mid top by (simp add: utf8_bytes_def)
  ultimately show ?thesis by simp
qed

lemma decode_scalar:
  assumes "\<not> is_high_surrogate u" "\<not> is_low_surrogate u"
  shows "toString_utf8 (utf8_bytes (unat u) @ rest) = u # toString_utf8 rest"
proof -
  have lt: "unat u < 0x10000"
    using unsigned_less [of u, where 'a = nat] by simp
  have ns: "\<not> (0xD800 \<le> unat u \<and> unat u < 0xE000)"
    using assms by (auto simp: is_high_surrogate_def is_low_surrogate_def)
  have "toString_utf8 (utf8_bytes (unat u) @ rest) = utf16_units (unat u) @ toString_utf8 rest"
  proof (cases "unat u < 0x80")
    case True
    then show ?thesis by (rule decode_bytes_1)
  next
    case False
    note ge80 = this
    show ?thesis
    proof (cases "unat u < 0x800")
      case True
      with ge80 show ?thesis by (intro decode_bytes_2) simp_all
    next
      case False
      with lt ns show ?thesis by (intro decode_bytes_3) simp_all
    qed
  qed
  with lt show ?thesis by (simp add: utf16_units_def)
qed

lemma decode_pair:
  assumes "is_high_surrogate u" "is_low_surrogate v"
  shows "toString_utf8
           (utf8_bytes (0x10000 + (unat u - 0xD800) * 0x400 + (unat v - 0xDC00)) @ rest)
         = u # v # toString_utf8 rest"
proof -
  define hi where "hi = unat u - 0xD800"
  define lo where "lo = unat v - 0xDC00"
  have hi: "hi < 0x400" "unat u = 0xD800 + hi"
    using assms(1) unfolding is_high_surrogate_def hi_def by linarith+
  have lo: "lo < 0x400" "unat v = 0xDC00 + lo"
    using assms(2) unfolding is_low_surrogate_def lo_def by linarith+
  let ?cp = "0x10000 + hi * 0x400 + lo"
  have rng: "0x10000 \<le> ?cp" "?cp < 0x110000"
    using hi(1) lo(1) by linarith+
  have dv: "(?cp - 0x10000) div 0x400 = hi" "(?cp - 0x10000) mod 0x400 = lo"
    using lo(1) by simp_all
  have "utf16_units ?cp = [of_nat (0xD800 + hi), of_nat (0xDC00 + lo)]"
    unfolding utf16_units_def dv using rng by simp
  also have "\<dots> = [u, v]"
    using hi(2) [symmetric] lo(2) [symmetric] by simp
  finally have "toString_utf8 (utf8_bytes ?cp @ rest) = u # v # toString_utf8 rest"
    using decode_bytes_4 [OF rng, of rest] by simp
  then show ?thesis by (simp only: hi_def lo_def)
qed

lemma decode_encode: "well_formed s \<Longrightarrow> toString_utf8 (utf8_encode s) = s"
proof (induction s rule: utf8_encode.induct)
  case 1
  show ?case by simp
next
  case (2 u us)
  show ?case
  proof (cases "is_high_surrogate u")
    case True
    with "2.prems" obtain v vs where us: "us = v # vs" and v: "is_low_surrogate v"
      and wf: "well_formed vs"
      by (auto split: list.splits)
    from "2.IH"(1) [OF True us v wf] have "toString_utf8 (utf8_encode vs) = vs" .
    with True us v show ?thesis
      by (simp add: decode_pair)
  next
    case False
    with "2.prems" have nl: "\<not> is_low_surrogate u" and wf: "well_formed us"
      by simp_all
    from "2.IH"(4) [OF False nl wf] have "toString_utf8 (utf8_encode us) = us" .
    with False nl show ?thesis
      by (simp add: decode_scalar)
  qed
qed

subsection \<open>Frames on the wire\<close>

lemma encode_ascii_append:
  "\<forall>u \<in> set a. unat u < 0x80 \<Longrightarrow> utf8_encode (a @ s) = to_bytes a @ utf8_encode s"
proof (induction a)
  case Nil
  show ?case by (simp add: to_bytes_def)
next
  case (Cons u a)
  then have u: "unat u < 0x80" by simp
  then have "\<not> is_high_surrogate u" "\<not> is_low_surrogate u"
    by (simp_all add: is_high_surrogate_def is_low_surrogate_def)
  moreover have "utf8_bytes (unat u) = [of_nat (unat u)]"
    using u by (simp add: utf8_bytes_def)
  ultimately show ?case
    using Cons by (simp add: to_bytes_def)
qed

lemma decode_ascii:
  "\<forall>u \<in> set a. unat u < 0x80 \<Longrightarrow> toString_utf8 (to_bytes a) = a"
proof (induction a)
  case Nil
  show ?case by (simp add: to_bytes_def)
next
  case (Cons u a)
  then have u: "unat u < 0x80" by simp
  then have b: "unat (of_nat (unat u) :: byte) = unat u"
    by (intro unat_byte) linarith
  have "toString_utf8 (of_nat (unat u) # to_bytes a) = of_nat (unat u) # toString_utf8 (to_bytes a)"
    using dec_ascii [of "of_nat (unat u)" "to_bytes a"] u by (simp only: b)
  with Cons show ?case
    by (simp add: to_bytes_def)
qed

lemma digit_unit:
  assumes "d < 10"
  shows "unat (digit_unit d) = 0x30 + d"
    and "is_digit (digit_unit d)"
proof -
  show u: "unat (digit_unit d) = 0x30 + d"
    unfolding digit_unit_def using assms by (intro unat_unit) linarith
  show "is_digit (digit_unit d)"
    unfolding is_digit_def word_le_nat_alt u using assms by simp
qed

declare decimal.simps [simp del]

lemma decimal_digits: "\<forall>u \<in> set (decimal n). is_digit u"
proof (induction n rule: decimal.induct)
  case (1 n)
  show ?case
  proof (cases "n < 10")
    case True
    then have "decimal n = [digit_unit n]"
      by (subst decimal.simps) simp
    with digit_unit(2) [OF True] show ?thesis
      by simp
  next
    case False
    then have d: "decimal n = decimal (n div 10) @ [digit_unit (n mod 10)]"
      by (subst decimal.simps) simp
    have "n mod 10 < 10" by simp
    then have "is_digit (digit_unit (n mod 10))" by (rule digit_unit(2))
    with False "1.IH" d show ?thesis
      by simp
  qed
qed

lemma decimal_not_Nil: "decimal n \<noteq> []"
  by (subst decimal.simps) simp

lemma parseInt_snoc: "parseInt (ds @ [d]) = 10 * parseInt ds + (unat d - 0x30)"
  by (simp add: parseInt_def)

lemma parseInt_decimal: "parseInt (decimal n) = n"
proof (induction n rule: decimal.induct)
  case (1 n)
  show ?case
  proof (cases "n < 10")
    case True
    then have "decimal n = [digit_unit n]"
      by (subst decimal.simps) simp
    with digit_unit(1) [OF True] show ?thesis
      by (simp add: parseInt_def)
  next
    case False
    then have d: "decimal n = decimal (n div 10) @ [digit_unit (n mod 10)]"
      by (subst decimal.simps) simp
    have "unat (digit_unit (n mod 10)) = 0x30 + n mod 10"
      by (rule digit_unit(1)) simp
    with False "1.IH" d show ?thesis
      by (simp add: parseInt_snoc)
  qed
qed

lemma space_not_digit: "is_space u \<Longrightarrow> \<not> is_digit u"
  by (auto simp: is_space_def is_digit_def word_le_nat_alt)

lemma digits_ascii:
  assumes "is_digit u"
  shows "unat u < 0x80" and "unat u \<noteq> 0x0D"
  using assms by (simp_all add: is_digit_def word_le_nat_alt)

lemma header_text_ascii: "\<forall>u \<in> set (header_text n). unat u < 0x80 \<and> unat u \<noteq> 0x0D"
  using decimal_digits [of n] digits_ascii
  by (auto simp: header_text_def ascii_def)

lemma header_match_header_text: "header_match (header_text n) = Some (decimal n)"
proof -
  obtain d ds where dec: "decimal n = d # ds"
    using decimal_not_Nil [of n] by (cases "decimal n") auto
  have all: "\<forall>u \<in> set (d # ds). is_digit u"
    using decimal_digits [of n] dec by simp
  then have d: "is_digit d" "\<not> is_space d"
    using space_not_digit by auto
  have tw: "takeWhile is_digit (d # ds) = d # ds"
    using all by (simp only: takeWhile_eq_all_conv)
  have sp: "is_space 0x20"
    by (simp add: is_space_def)
  have "dropWhile is_space (0x20 # d # ds) = d # ds"
    using sp d(2) by simp
  then have "match_here (header_text n) = Some (d # ds)"
    using tw by (simp add: match_here_def header_text_def ascii_def canon_def dec)
  then show ?thesis
    by (simp add: header_text_def ascii_def dec)
qed

lemma indexOf_delimiter:
  "\<forall>b \<in> set h. b \<noteq> 0x0D \<Longrightarrow>
   indexOf (h @ HEADER_DELIMITER @ r) HEADER_DELIMITER = Some (length h)"
  by (induction h) (simp_all add: HEADER_DELIMITER_def)

lemma to_bytes_no_CR:
  assumes "\<forall>u \<in> set a. unat u < 0x80 \<and> unat u \<noteq> 0x0D"
  shows "\<forall>b \<in> set (to_bytes a). b \<noteq> 0x0D"
proof
  fix b assume "b \<in> set (to_bytes a)"
  then obtain u where u: "u \<in> set a" "b = of_nat (unat u)"
    by (auto simp: to_bytes_def)
  with assms have "unat u < 0x80" "unat u \<noteq> 0x0D" by auto
  then have "unat b \<noteq> 0x0D"
    using u(2) unat_byte [of "unat u"] by simp
  then show "b \<noteq> 0x0D" by auto
qed

lemma wire_eq:
  "wire s = to_bytes (header_text (byteLength s)) @ HEADER_DELIMITER @ utf8_encode s"
proof -
  let ?a = "header_text (byteLength s) @ [0x0D, 0x0A, 0x0D, 0x0A]"
  have "\<forall>u \<in> set ?a. unat u < 0x80"
    using header_text_ascii [of "byteLength s"] by simp
  then have "utf8_encode (?a @ s) = to_bytes ?a @ utf8_encode s"
    by (rule encode_ascii_append)
  moreover have "frame (byteLength s) s = ?a @ s"
    by (simp add: frame_def header_text_def)
  moreover have "to_bytes ?a = to_bytes (header_text (byteLength s)) @ HEADER_DELIMITER"
    by (simp add: to_bytes_def HEADER_DELIMITER_def)
  ultimately show ?thesis
    by (simp add: wire_def)
qed

lemma extract_frame:
  assumes "well_formed s"
  shows "extractMessages (wire s @ tail) f st = extractMessages tail f (f s (byteLength s) st)"
proof -
  let ?n = "byteLength s"
  let ?h = "to_bytes (header_text ?n)"
  let ?buf = "?h @ HEADER_DELIMITER @ utf8_encode s @ tail"
  have buf: "wire s @ tail = ?buf"
    by (simp add: wire_eq)
  have idx: "indexOf ?buf HEADER_DELIMITER = Some (length ?h)"
    using to_bytes_no_CR [OF header_text_ascii] by (rule indexOf_delimiter)
  have hdr: "toString_utf8 (take (length ?h) ?buf) = header_text ?n"
    using header_text_ascii [of ?n] by (simp add: decode_ascii)
  have m: "header_match (toString_utf8 (take (length ?h) ?buf)) = Some (decimal ?n)"
    unfolding hdr by (rule header_match_header_text)
  have len4: "length HEADER_DELIMITER = 4"
    by (simp add: HEADER_DELIMITER_def)
  have body: "take ?n (drop (length ?h + 4) ?buf) = utf8_encode s"
    using len4 by (simp add: byteLength_def)
  have rest: "drop (length ?h + 4 + ?n) ?buf = tail"
    using len4 by (simp add: byteLength_def)
  have enough: "\<not> length ?buf < length ?h + 4 + ?n"
    using len4 by (simp add: byteLength_def)
  have "extractMessages ?buf f st
        = extractMessages tail f (f (toString_utf8 (utf8_encode s)) ?n st)"
    using idx m enough body rest
    by (subst extractMessages.simps) (simp add: parseInt_decimal Let_def)
  with assms buf show ?thesis
    by (simp add: decode_encode)
qed

lemma extract_frames:
  assumes "\<forall>p \<in> set ps. well_formed p"
  shows "extractMessages (concat (map wire ps) @ tail) f st
         = extractMessages tail f (foldl (\<lambda>s p. f p (byteLength p) s) st ps)"
  using assms
proof (induction ps arbitrary: st)
  case Nil
  show ?case by simp
next
  case (Cons p ps)
  then have "well_formed p" by simp
  from extract_frame [OF this, of "concat (map wire ps) @ tail" f st] Cons
  show ?case by simp
qed

lemma non_ascii_encoding:
  "utf8_encode non_ascii_text = [0xC3, 0xA9, 0xE2, 0x82, 0xAC, 0xF0, 0x9F, 0x98, 0x80]"
  by (simp add: non_ascii_text_def is_high_surrogate_def is_low_surrogate_def utf8_bytes_def)

lemma non_ascii_well_formed: "well_formed non_ascii_text"
  by (simp add: non_ascii_text_def is_high_surrogate_def is_low_surrogate_def)

subsection \<open>The queue and the steps of the connection lifecycle\<close>

lemma foldl_socket_write:
  "\<not> destroyed sock \<Longrightarrow>
   foldl (\<lambda>s msg. socket_write sock (frame (byteLength (fst msg)) (fst msg)) s) st ms
   = st\<lparr>tcpWritten := tcpWritten st @ map relayed ms\<rparr>"
  by (induction ms arbitrary: st) (simp_all add: socket_write_def relayed_def)

lemma flush_pending_live:
  "\<not> destroyed sock \<Longrightarrow>
   flush_pending sock st = st\<lparr>tcpWritten := tcpWritten st @ map relayed (pendingMessages st)\<rparr>"
  by (simp add: flush_pending_def foldl_socket_write)

lemma stdinMessages_staged:
  "\<not> tcpConnected st \<or> isWarmingUp st \<Longrightarrow>
   stdinMessages P st ms = st\<lparr>pendingMessages := pendingMessages st @ ms\<rparr>"
proof (induction ms arbitrary: st)
  case Nil
  show ?case by (simp add: stdinMessages_def)
next
  case (Cons m ms)
  let ?s = "st\<lparr>pendingMessages := pendingMessages st @ [m]\<rparr>"
  have step: "stdinMessages P st (m # ms) = stdinMessages P ?s ms"
    using Cons.prems by (auto simp: stdinMessages_def stdinMessage_def)
  have "\<not> tcpConnected ?s \<or> isWarmingUp ?s"
    using Cons.prems by simp
  from Cons.IH [OF this] step show ?case by simp
qed

lemma track_fields:
  "tcpSocket (fst (track_and_normalize P st c)) = tcpSocket st"
  "tcpConnected (fst (track_and_normalize P st c)) = tcpConnected st"
  "pendingMessages (fst (track_and_normalize P st c)) = pendingMessages st"
  "tcpWritten (fst (track_and_normalize P st c)) = tcpWritten st"
  "stdout (fst (track_and_normalize P st c)) = stdout st"
  "isWarmingUp (fst (track_and_normalize P st c)) = isWarmingUp st"
  "isReconnecting (fst (track_and_normalize P st c)) = isReconnecting st"
  "bufferedNotifications (fst (track_and_normalize P st c)) = bufferedNotifications st"
  by (simp_all add: track_and_normalize_def Let_def split: option.splits sum.splits)

lemma track_content: "snd (track_and_normalize P st c) = normalizedContent P c"
  by (simp add: track_and_normalize_def normalizedContent_def Let_def
      split: option.splits sum.splits)

lemma sendToGodot_live:
  assumes "tcpConnected st" "tcpSocket st = Some (Socket False)"
  shows "tcpWritten (sendToGodot P st c n)
           = tcpWritten st @ [framed (normalizedContent P c)]"
    and "pendingMessages (sendToGodot P st c n) = pendingMessages st"
    and "stdout (sendToGodot P st c n) = stdout st"
proof -
  obtain st1 nc where e: "track_and_normalize P st c = (st1, nc)"
    by (cases "track_and_normalize P st c")
  have f: "tcpSocket st1 = Some (Socket False)" "tcpConnected st1"
    "tcpWritten st1 = tcpWritten st" "pendingMessages st1 = pendingMessages st"
    "stdout st1 = stdout st"
    using track_fields [of P st c] assms by (simp_all add: e)
  have nc: "nc = normalizedContent P c"
    using track_content [of P st c] by (simp add: e)
  have s: "sendToGodot P st c n = st1\<lparr>tcpWritten := tcpWritten st1 @ [frame (byteLength nc) nc]\<rparr>"
    by (simp add: sendToGodot_def e f socket_write_def)
  show "tcpWritten (sendToGodot P st c n)
           = tcpWritten st @ [framed (normalizedContent P c)]"
    by (simp add: s f nc framed_def)
  show "pendingMessages (sendToGodot P st c n) = pendingMessages st"
    by (simp add: s f)
  show "stdout (sendToGodot P st c n) = stdout st"
    by (simp add: s f)
qed

lemma onClose_fields:
  assumes "shouldKeepRunning st"
  shows "\<not> tcpConnected (onClose st)" "isReconnecting (onClose st)"
    "shouldKeepRunning (onClose st)" "tcpWritten (onClose st) = tcpWritten st"
    "stdout (onClose st) = stdout st" "wasInitialized (onClose st) = wasInitialized st"
    "pendingMessages (onClose st) = pendingMessages st"
  using assms by (simp_all add: onClose_def scheduleReconnect_def Let_def)

lemma onReconnectTimer_fields:
  assumes "shouldKeepRunning st"
  shows "\<not> tcpConnected (onReconnectTimer st)"
    "tcpSocket (onReconnectTimer st) = Some (Socket False)"
    "isReconnecting (onReconnectTimer st) = isReconnecting st"
    "tcpWritten (onReconnectTimer st) = tcpWritten st"
    "stdout (onReconnectTimer st) = stdout st"
    "wasInitialized (onReconnectTimer st) = wasInitialized st"
    "pendingMessages (onReconnectTimer st) = pendingMessages st"
    "bufferedNotifications (onReconnectTimer st) = []"
    "\<not> waitingForInitialize (onReconnectTimer st)"
  using assms
  by (simp_all add: onReconnectTimer_def resetConnectionState_def connectToGodot_def Let_def)

lemma onConnect_reconnecting:
  assumes "isReconnecting st" "tcpSocket st = Some sock"
  shows "onConnect P st
         = Inr (st\<lparr>tcpConnected := True, reconnectAttempts := 0, pendingMessages := [],
                  isReconnecting := False, isWarmingUp := True,
                  stdout := stdout st
                    @ (if wasInitialized st then [framed (restart_notice P)] else [])\<rparr>)"
  using assms
  by (simp add: onConnect_def Let_def sendNotificationToClient_def writeToStdout_def
      restart_notice_def framed_def)

lemma onConnect_first:
  assumes "\<not> isReconnecting st" "tcpSocket st = Some (Socket False)"
  shows "onConnect P st
         = Inr (st\<lparr>tcpConnected := True, reconnectAttempts := 0,
                  tcpWritten := tcpWritten st @ map relayed (pendingMessages st),
                  pendingMessages := []\<rparr>)"
  using assms by (simp add: onConnect_def Let_def flush_pending_live)

lemma onWarmupTimeout_live:
  assumes "tcpSocket st = Some (Socket False)"
  shows "onWarmupTimeout st
         = Inr (st\<lparr>isWarmingUp := False,
                  tcpWritten := tcpWritten st @ map relayed (pendingMessages st),
                  pendingMessages := []\<rparr>)"
  using assms by (simp add: onWarmupTimeout_def Let_def flush_pending_live)

lemma reconnect_run_states:
  assumes "shouldKeepRunning st"
  shows "\<exists>s3 s4.
           reconnect_run P st before_timer before_connect = Inr s3
         \<and> pendingMessages s3 = []
         \<and> tcpWritten s3 = tcpWritten st
         \<and> stdout s3 = stdout st
              @ (if wasInitialized st then [framed (restart_notice P)] else [])
         \<and> onWarmupTimeout (stdinMessages P s3 during_warmup) = Inr s4
         \<and> tcpWritten s4 = tcpWritten st @ map relayed during_warmup
         \<and> pendingMessages s4 = []
         \<and> stdout s4 = stdout s3
         \<and> tcpConnected s4 \<and> \<not> isWarmingUp s4
         \<and> tcpWritten (stdinMessage P c n s4)
             = tcpWritten s4 @ [framed (normalizedContent P c)]"
proof -
  let ?a = "onClose st"
  let ?s1 = "stdinMessages P ?a before_timer"
  have s1: "?s1 = ?a\<lparr>pendingMessages := pendingMessages ?a @ before_timer\<rparr>"
    using onClose_fields(1) [OF assms] by (simp add: stdinMessages_staged)
  have k1: "shouldKeepRunning ?s1" "isReconnecting ?s1"
    "tcpWritten ?s1 = tcpWritten st" "stdout ?s1 = stdout st"
    "wasInitialized ?s1 = wasInitialized st"
    unfolding s1 using onClose_fields [OF assms] by simp_all
  let ?b = "onReconnectTimer ?s1"
  let ?s2 = "stdinMessages P ?b before_connect"
  have s2: "?s2 = ?b\<lparr>pendingMessages := pendingMessages ?b @ before_connect\<rparr>"
    using onReconnectTimer_fields(1) [OF k1(1)] by (simp add: stdinMessages_staged)
  have k2: "isReconnecting ?s2" "tcpSocket ?s2 = Some (Socket False)"
    "tcpWritten ?s2 = tcpWritten st" "stdout ?s2 = stdout st"
    "wasInitialized ?s2 = wasInitialized st"
    unfolding s2 using onReconnectTimer_fields [OF k1(1)] k1 by simp_all
  define s3 where "s3 = ?s2\<lparr>tcpConnected := True, reconnectAttempts := 0, pendingMessages := [],
                  isReconnecting := False, isWarmingUp := True,
                  stdout := stdout ?s2
                    @ (if wasInitialized ?s2 then [framed (restart_notice P)] else [])\<rparr>"
  have c: "reconnect_run P st before_timer before_connect = Inr s3"
    unfolding reconnect_run_def s3_def using k2(1,2) by (rule onConnect_reconnecting)
  have k3: "pendingMessages s3 = []" "tcpWritten s3 = tcpWritten st"
    "stdout s3 = stdout st @ (if wasInitialized st then [framed (restart_notice P)] else [])"
    "isWarmingUp s3" "tcpConnected s3" "tcpSocket s3 = Some (Socket False)"
    unfolding s3_def using k2 by simp_all
  let ?w = "stdinMessages P s3 during_warmup"
  have w: "?w = s3\<lparr>pendingMessages := pendingMessages s3 @ during_warmup\<rparr>"
    using k3(4) by (simp add: stdinMessages_staged)
  define s4 where "s4 = ?w\<lparr>isWarmingUp := False,
                  tcpWritten := tcpWritten ?w @ map relayed (pendingMessages ?w),
                  pendingMessages := []\<rparr>"
  have "tcpSocket ?w = Some (Socket False)"
    unfolding w using k3(6) by simp
  then have t: "onWarmupTimeout ?w = Inr s4"
    unfolding s4_def by (rule onWarmupTimeout_live)
  have k4: "tcpWritten s4 = tcpWritten st @ map relayed during_warmup"
    "pendingMessages s4 = []" "stdout s4 = stdout s3"
    "tcpConnected s4" "\<not> isWarmingUp s4" "tcpSocket s4 = Some (Socket False)"
    unfolding s4_def w using k3 by simp_all
  have "stdinMessage P c n s4 = sendToGodot P s4 c n"
    using k4(4,5) by (simp add: stdinMessage_def)
  then have d: "tcpWritten (stdinMessage P c n s4)
                = tcpWritten s4 @ [framed (normalizedContent P c)]"
    using sendToGodot_live(1) [OF k4(4) k4(6)] by simp
  from c k3(1,2,3) t k4(1,2,3,4,5) d show ?thesis
    by blast
qed

subsection \<open>The sample runs\<close>

lemma sample_parse_request:
  "sample_parse initialize_request_text
   = Some (JObj [jsonrpc2, (ascii ''id'', JNum 1), (ascii ''method'', JStr (ascii ''initialize'')),
               (ascii ''params'', JObj [])])"
  by (simp add: sample_parse_def sample_texts)

lemma sample_parse_plain: "JSON_parse sample_platform plain_text = None"
  by (simp add: sample_platform_def sample_parse_def sample_texts plain_text_def)

lemma sample_parse_did_open:
  "sample_parse did_open_text
   = Some (JObj [jsonrpc2, (ascii ''method'', JStr (ascii ''textDocument/didOpen'')),
               (ascii ''params'', JObj [(ascii ''uri'', JStr (ascii ''file://C:/a.gd''))])])"
  by (simp add: sample_parse_def sample_texts)

lemma normalize_request:
  "normalizeUrisInObject
     (JObj [jsonrpc2, (ascii ''id'', JNum 1), (ascii ''method'', JStr (ascii ''initialize'')),
            (ascii ''params'', JObj [])])
   = JObj [jsonrpc2, (ascii ''id'', JNum 1), (ascii ''method'', JStr (ascii ''initialize'')),
            (ascii ''params'', JObj [])]"
  by (simp add: jsonrpc2_def set_prop_def startsWith_def ascii_def)

lemma normalize_did_open:
  "normalizeUrisInObject
     (JObj [jsonrpc2, (ascii ''method'', JStr (ascii ''textDocument/didOpen'')),
               (ascii ''params'', JObj [(ascii ''uri'', JStr (ascii ''file://C:/a.gd''))])])
   = JObj [jsonrpc2, (ascii ''method'', JStr (ascii ''textDocument/didOpen'')),
               (ascii ''params'', JObj [(ascii ''uri'', JStr (ascii ''file:///C:/a.gd''))])]"
  by (simp add: jsonrpc2_def set_prop_def startsWith_def normalizeFileUri_def ascii_def Let_def)

lemma sample_stringify_simps:
  "sample_stringify
     (JObj [jsonrpc2, (ascii ''id'', JNum 1), (ascii ''method'', JStr (ascii ''initialize'')),
            (ascii ''params'', JObj [])]) = initialize_request_text"
  "sample_stringify
     (JObj [jsonrpc2, (ascii ''method'', JStr (ascii ''textDocument/didOpen'')),
            (ascii ''params'', JObj [(ascii ''uri'', JStr (ascii ''file:///C:/a.gd''))])])
   = did_open_normalized_text"
  "sample_stringify
     (JObj [(ascii ''jsonrpc'', JStr (ascii ''2.0'')),
            (ascii ''method'', JStr (ascii ''window/showMessage'')),
            (ascii ''params'', restart_params)]) = restart_notice_text"
  by (simp_all add: sample_stringify_def jsonrpc2_def ascii_def restart_params_def)

lemma sample_normalized_did_open:
  "normalizedContent sample_platform did_open_text = did_open_normalized_text"
proof -
  let ?msg = "JObj [jsonrpc2, (ascii ''method'', JStr (ascii ''textDocument/didOpen'')),
               (ascii ''params'', JObj [(ascii ''uri'', JStr (ascii ''file://C:/a.gd''))])]"
  have p: "JSON_parse sample_platform did_open_text = Some ?msg"
    by (simp add: sample_platform_def sample_parse_did_open)
  have m: "get_prop ?msg (ascii ''method'')
           = Inr (Some (JStr (ascii ''textDocument/didOpen'')))"
    by (simp add: jsonrpc2_def ascii_def)
  have "normalizedContent sample_platform did_open_text
        = JSON_stringify sample_platform (normalizeUrisInObject ?msg)"
    by (simp add: normalizedContent_def p m)
  then show ?thesis
    by (simp only: normalize_did_open) (simp add: sample_platform_def sample_stringify_simps)
qed

lemma sample_restart_notice: "restart_notice sample_platform = restart_notice_text"
  by (simp add: restart_notice_def sample_platform_def sample_stringify_simps)

lemma did_open_changed: "did_open_normalized_text \<noteq> did_open_text"
  by (simp add: did_open_normalized_text_def did_open_text_def ascii_def)

lemma relayed_framed: "relayed m = framed (fst m)"
  by (simp add: relayed_def framed_def)

lemma session_bridge_fields:
  "shouldKeepRunning session_bridge" "wasInitialized session_bridge"
  "tcpWritten session_bridge = [framed initialize_request_text]"
  "stdout session_bridge = [framed initialize_response_text]"
  "shouldKeepRunning connected_bridge" "\<not> wasInitialized connected_bridge"
  "tcpWritten connected_bridge = []" "stdout connected_bridge = []"
  "tcpConnected connected_bridge" "\<not> isWarmingUp connected_bridge"
  "tcpSocket connected_bridge = Some (Socket False)"
  "\<not> waitingForInitialize connected_bridge"
  by (simp_all add: session_bridge_def connected_bridge_def initial_bridge_def)

lemma connected_bridge_reached:
  "onConnect P (connectToGodot initial_bridge) = Inr connected_bridge"
  by (simp add: onConnect_def connectToGodot_def initial_bridge_def connected_bridge_def
      Let_def flush_pending_def)

lemma track_initialize:
  assumes "JSON_parse P c = Some msg"
    and "get_prop msg (ascii ''method'') = Inr (Some (JStr (ascii ''initialize'')))"
    and "get_prop msg (ascii ''id'') = Inr (Some i)"
  shows "track_and_normalize P st c
         = (st\<lparr>waitingForInitialize := True, initializeRequestId := i,
                 wasInitialized := False\<rparr>,
            JSON_stringify P (normalizeUrisInObject msg))"
  using assms by (simp add: track_and_normalize_def)

lemma request_tracked:
  "track_and_normalize sample_platform st initialize_request_text
   = (st\<lparr>waitingForInitialize := True, initializeRequestId := JNum 1,
           wasInitialized := False\<rparr>, initialize_request_text)"
proof -
  let ?msg = "JObj [jsonrpc2, (ascii ''id'', JNum 1),
                    (ascii ''method'', JStr (ascii ''initialize'')), (ascii ''params'', JObj [])]"
  have p: "JSON_parse sample_platform initialize_request_text = Some ?msg"
    by (simp add: sample_platform_def sample_parse_request)
  have m: "get_prop ?msg (ascii ''method'') = Inr (Some (JStr (ascii ''initialize'')))"
    and i: "get_prop ?msg (ascii ''id'') = Inr (Some (JNum 1))"
    by (simp_all add: jsonrpc2_def ascii_def)
  have s: "JSON_stringify sample_platform (normalizeUrisInObject ?msg) = initialize_request_text"
    by (simp only: normalize_request) (simp add: sample_platform_def sample_stringify_simps)
  from track_initialize [OF p m i, of st] show ?thesis
    by (simp only: s)
qed

lemma session_bridge_reached:
  "handleGodotMessage sample_platform
     (stdinMessage sample_platform initialize_request_text 58 connected_bridge)
     initialize_response_text 36 = session_bridge"
proof -
  let ?s = "connected_bridge\<lparr>waitingForInitialize := True, initializeRequestId := JNum 1,
                         wasInitialized := False,
                         tcpWritten := [framed initialize_request_text]\<rparr>"
  have 1: "stdinMessage sample_platform initialize_request_text 58 connected_bridge = ?s"
    by (simp add: stdinMessage_def session_bridge_fields sendToGodot_def request_tracked
        socket_write_def framed_def)
  have "waitingForInitialize ?s"
    "is_awaited_response sample_platform (initializeRequestId ?s) initialize_response_text"
    by (simp_all add: sample_classify)
  from handle_response [OF this, of 36] show ?thesis
    unfolding 1
    by (simp add: session_bridge_def connected_bridge_def initial_bridge_def relayed_framed)
qed

lemma normalizedContent_cases:
  "JSON_parse P c = Some msg \<Longrightarrow> msg \<noteq> JNull \<Longrightarrow>
   normalizedContent P c = JSON_stringify P (normalizeUrisInObject msg)"
  "JSON_parse P c = None \<or> JSON_parse P c = Some JNull \<Longrightarrow> normalizedContent P c = c"
proof -
  show "JSON_parse P c = Some msg \<Longrightarrow> msg \<noteq> JNull \<Longrightarrow>
   normalizedContent P c = JSON_stringify P (normalizeUrisInObject msg)"
    by (cases msg) (simp_all add: normalizedContent_def)
  show "JSON_parse P c = None \<or> JSON_parse P c = Some JNull \<Longrightarrow> normalizedContent P c = c"
    by (auto simp: normalizedContent_def)
qed

lemma stdinMessage_direct:
  assumes "tcpConnected st" "\<not> isWarmingUp st" "tcpSocket st = Some (Socket False)"
  shows "tcpWritten (stdinMessage P c n st) = tcpWritten st @ [framed (normalizedContent P c)]"
  using assms sendToGodot_live(1) [of st P c n] by (simp add: stdinMessage_def)

lemma handle_writes_original:
  "\<exists>k. stdout (handleGodotMessage P st c n) = stdout st @ k
       \<and> set k \<subseteq> insert (framed c) (framed ` fst ` set (bufferedNotifications st))"
proof (cases "waitingForInitialize st")
  case False
  then have "stdout (handleGodotMessage P st c n) = stdout st @ [framed c]"
    by (simp add: handle_idle writeToStdout_def framed_def)
  then show ?thesis by simp
next
  case True
  show ?thesis
  proof (cases "is_awaited_response P (initializeRequestId st) c")
    case True
    with \<open>waitingForInitialize st\<close>
    have "stdout (handleGodotMessage P st c n)
          = stdout st @ (framed c # map relayed (bufferedNotifications st))"
      by (simp add: handle_response relayed_framed)
    moreover have "set (framed c # map relayed (bufferedNotifications st))
        \<subseteq> insert (framed c) (framed ` fst ` set (bufferedNotifications st))"
      by (auto simp: relayed_framed)
    ultimately show ?thesis by blast
  next
    case False
    with \<open>waitingForInitialize st\<close>
    have "stdout (handleGodotMessage P st c n) = stdout st @ []
          \<or> stdout (handleGodotMessage P st c n) = stdout st @ [framed c]"
      by (simp add: handle_not_awaited writeToStdout_def framed_def)
    then show ?thesis
      by (elim disjE) (rule exI [of _ "[]"], simp, rule exI [of _ "[framed c]"], simp)
  qed
qed



subsection \<open>From bytes to messages\<close>

text \<open>
  When a delivery holds whole frames and nothing is carried over, a \<open>data\<close> handler runs
  its callback on the payloads in order: the runs of messages in the theorems below are what
  the handlers make of such deliveries.
\<close>

lemma onTcpData_frames:
  assumes "\<forall>p \<in> set ps. well_formed p" and "tcpBuffer st = []"
  shows "onTcpData P (concat (map wire ps)) st
         = (tcpMessages P (st\<lparr>tcpBuffer := concat (map wire ps)\<rparr>)
              (map (\<lambda>p. (p, byteLength p)) ps))\<lparr>tcpBuffer := []\<rparr>"
proof -
  let ?f = "\<lambda>content contentLength s. handleGodotMessage P s content contentLength"
  let ?st1 = "st\<lparr>tcpBuffer := concat (map wire ps)\<rparr>"
  have "extractMessages (concat (map wire ps) @ []) ?f ?st1
        = extractMessages [] ?f (foldl (\<lambda>s p. ?f p (byteLength p) s) ?st1 ps)"
    using assms(1) by (rule extract_frames)
  moreover have "foldl (\<lambda>s p. ?f p (byteLength p) s) ?st1 ps
                 = tcpMessages P ?st1 (map (\<lambda>p. (p, byteLength p)) ps)"
    by (simp add: tcpMessages_def foldl_map)
  ultimately show ?thesis
    using assms(2) by (simp add: onTcpData_def extractMessages_Nil)
qed

lemma onStdinData_frames:
  assumes "\<forall>p \<in> set ps. well_formed p" and "stdinBuffer st = []"
  shows "onStdinData P (concat (map wire ps)) st
         = (stdinMessages P (st\<lparr>stdinBuffer := concat (map wire ps)\<rparr>)
              (map (\<lambda>p. (p, byteLength p)) ps))\<lparr>stdinBuffer := []\<rparr>"
proof -
  let ?st1 = "st\<lparr>stdinBuffer := concat (map wire ps)\<rparr>"
  have "extractMessages (concat (map wire ps) @ []) (stdinMessage P) ?st1
        = extractMessages [] (stdinMessage P)
            (foldl (\<lambda>s p. stdinMessage P p (byteLength p) s) ?st1 ps)"
    using assms(1) by (rule extract_frames)
  moreover have "foldl (\<lambda>s p. stdinMessage P p (byteLength p) s) ?st1 ps
                 = stdinMessages P ?st1 (map (\<lambda>p. (p, byteLength p)) ps)"
    by (simp add: stdinMessages_def foldl_map)
  ultimately show ?thesis
    using assms(2) by (simp add: onStdinData_def extractMessages_Nil)
qed

section \<open>The handshake reorder buffer\<close>

text \<open>
  C1, amended. While the bridge awaits the initialize response with tracked id \<open>t\<close>, take
  any inbound messages \<open>pre\<close> none of which is the awaited response (a parseable message
  whose id is strictly equal to \<open>t\<close> and which has a result), then such a response \<open>r\<close>,
  then any messages \<open>post\<close>. Of \<open>pre\<close>, the notifications (parseable, a method, no id) are
  held and everything else is relayed at once; \<open>r\<close> is relayed at once, the bridge stops
  waiting, the held messages follow in arrival order and the held buffer is empty; \<open>post\<close>
  passes straight through.
\<close>

theorem reorder_buffer_releases_after_response:
  assumes "waitingForInitialize st"
    and "initializeRequestId st = t"
    and "\<forall>m \<in> set pre. \<not> is_awaited_response P t (fst m)"
    and "is_awaited_response P t (fst r)"
  shows "stdout (tcpMessages P st (pre @ [r] @ post))
           = stdout st
             @ map relayed (filter (\<lambda>m. \<not> is_notification P (fst m)) pre)
             @ [relayed r]
             @ map relayed (bufferedNotifications st)
             @ map relayed (filter (\<lambda>m. is_notification P (fst m)) pre)
             @ map relayed post
         \<and> \<not> waitingForInitialize (tcpMessages P st (pre @ [r] @ post))
         \<and> bufferedNotifications (tcpMessages P st (pre @ [r] @ post)) = []
         \<and> stdout (tcpMessages P st pre)
           = stdout st @ map relayed (filter (\<lambda>m. \<not> is_notification P (fst m)) pre)
         \<and> bufferedNotifications (tcpMessages P st pre)
           = bufferedNotifications st @ filter (\<lambda>m. is_notification P (fst m)) pre"
proof -
  let ?s1 = "tcpMessages P st pre"
  have s1: "?s1 = st\<lparr>stdout := stdout st
                    @ map relayed (filter (\<lambda>m. \<not> is_notification P (fst m)) pre),
               bufferedNotifications := bufferedNotifications st
                    @ filter (\<lambda>m. is_notification P (fst m)) pre\<rparr>"
    using assms by (simp add: tcpMessages_waiting)
  let ?s2 = "handleGodotMessage P ?s1 (fst r) (snd r)"
  have "waitingForInitialize ?s1" "is_awaited_response P (initializeRequestId ?s1) (fst r)"
    using assms s1 by simp_all
  from handle_response [OF this, of "snd r"]
  have s2: "?s2 = ?s1\<lparr>stdout := stdout ?s1 @ relayed r # map relayed (bufferedNotifications ?s1),
               waitingForInitialize := False, wasInitialized := True,
               bufferedNotifications := []\<rparr>"
    by simp
  then have idle: "\<not> waitingForInitialize ?s2"
    by simp
  have all: "tcpMessages P st (pre @ [r] @ post) = tcpMessages P ?s2 post"
    by (simp add: tcpMessages_def)
  have "tcpMessages P ?s2 post = ?s2\<lparr>stdout := stdout ?s2 @ map relayed post\<rparr>"
    using idle by (rule tcpMessages_idle)
  with all s2 s1 show ?thesis
    by simp
qed

text \<open>
  The run of the specification: notifications A and B, the response to id 1, notification
  C arrive in this order; the local stream receives the response, A, B, C.
\<close>

theorem reorder_buffer_scenario:
  "stdout (tcpMessages sample_platform awaiting_1
             ([(notification_A_text, 30), (notification_B_text, 30)]
              @ [(initialize_response_text, 36)] @ [(notification_C_text, 30)]))
   = [relayed (initialize_response_text, 36), relayed (notification_A_text, 30),
      relayed (notification_B_text, 30), relayed (notification_C_text, 30)]"
  using reorder_buffer_releases_after_response
    [of awaiting_1 "JNum 1" "[(notification_A_text, 30), (notification_B_text, 30)]"
        sample_platform "(initialize_response_text, 36)" "[(notification_C_text, 30)]"]
  by (simp add: sample_classify awaiting_1_def initial_bridge_def)

text \<open>
  C1 as stated fails: \<open>{"jsonrpc":"2.0"}\<close> parses and carries no id, yet it carries no
  method either, so it is relayed at once and not held.
\<close>

theorem bare_message_not_held:
  "JSON_parse sample_platform bare_text = Some (JObj [jsonrpc2])
   \<and> get_prop (JObj [jsonrpc2]) (ascii ''id'') = Inr None
   \<and> bufferedNotifications (handleGodotMessage sample_platform awaiting_1 bare_text 17) = []
   \<and> stdout (handleGodotMessage sample_platform awaiting_1 bare_text 17)
     = [relayed (bare_text, 17)]"
  apply (simp add: handleGodotMessage_def sample_platform_def sample_parse_simps
      awaiting_1_def initial_bridge_def writeToStdout_def relayed_def)
  apply (simp add: jsonrpc2_def ascii_def)
  done

text \<open>
  C10. While the bridge awaits the initialize response, a parseable message whose id is the
  tracked one but which has no result (such as an error response to the initialize request)
  is relayed at once and leaves the reorder buffer active: the bridge keeps waiting for the
  same id and the held messages stay held. Any other inbound message \<open>c2\<close> releases the
  held messages exactly when it is the awaited response; otherwise the bridge keeps waiting,
  the held messages stay at the front of the held buffer and nothing but \<open>c2\<close> itself can
  reach the local stream. Resetting the connection state empties the held buffer without
  writing to the local stream.
\<close>

theorem error_response_keeps_buffer_active:
  assumes "waitingForInitialize st"
    and "JSON_parse P c = Some msg"
    and "get_prop msg (ascii ''id'') = Inr i"
    and "strict_equals i (Some (initializeRequestId st))"
    and "get_prop msg (ascii ''result'') = Inr None"
  shows "stdout (handleGodotMessage P st c n) = stdout st @ [relayed (c, n)]
         \<and> waitingForInitialize (handleGodotMessage P st c n)
         \<and> initializeRequestId (handleGodotMessage P st c n) = initializeRequestId st
         \<and> bufferedNotifications (handleGodotMessage P st c n) = bufferedNotifications st
         \<and> (if is_awaited_response P (initializeRequestId st) c2
            then stdout (handleGodotMessage P st c2 n2)
                   = stdout st @ relayed (c2, n2) # map relayed (bufferedNotifications st)
                 \<and> bufferedNotifications (handleGodotMessage P st c2 n2) = []
            else waitingForInitialize (handleGodotMessage P st c2 n2)
                 \<and> take (length (bufferedNotifications st))
                      (bufferedNotifications (handleGodotMessage P st c2 n2))
                    = bufferedNotifications st
                 \<and> set (stdout (handleGodotMessage P st c2 n2))
                    \<subseteq> set (stdout st) \<union> {relayed (c2, n2)})
         \<and> bufferedNotifications (resetConnectionState st) = []
         \<and> stdout (resetConnectionState st) = stdout st"
proof -
  have na: "\<not> is_awaited_response P (initializeRequestId st) c"
    using assms by (simp add: is_awaited_response_def)
  have nn: "\<not> is_notification P c"
    using assms by (auto simp: is_notification_def)
  from handle_pass [OF assms(1) nn na]
  have 1: "handleGodotMessage P st c n = writeToStdout st c n" .
  have 2: "is_awaited_response P (initializeRequestId st) c2 \<Longrightarrow>
      handleGodotMessage P st c2 n2
      = st\<lparr>stdout := stdout st @ relayed (c2, n2) # map relayed (bufferedNotifications st),
           waitingForInitialize := False, wasInitialized := True,
           bufferedNotifications := []\<rparr>"
    using assms(1) by (rule handle_response)
  have 3: "\<not> is_awaited_response P (initializeRequestId st) c2 \<Longrightarrow>
      handleGodotMessage P st c2 n2
      = (if is_notification P c2
         then st\<lparr>bufferedNotifications := bufferedNotifications st @ [(c2, n2)]\<rparr>
         else writeToStdout st c2 n2)"
    using assms(1) by (rule handle_not_awaited)
  show ?thesis
  proof (cases "is_awaited_response P (initializeRequestId st) c2")
    case True
    with 1 2 assms(1) show ?thesis
      by (simp add: writeToStdout_def relayed_def resetConnectionState_def)
  next
    case False
    with 1 3 assms(1) show ?thesis
      by (auto simp: writeToStdout_def relayed_def resetConnectionState_def)
  qed
qed

text \<open>
  With notification A held, an error response to request 1 is relayed and A stays held;
  the result-bearing response would have released A behind it, and a further notification
  would have been held behind A.
\<close>

theorem error_response_scenario:
  "stdout (handleGodotMessage sample_platform awaiting_1_holding_A initialize_error_text 63)
     = [relayed (initialize_error_text, 63)]
   \<and> waitingForInitialize
       (handleGodotMessage sample_platform awaiting_1_holding_A initialize_error_text 63)
   \<and> bufferedNotifications
       (handleGodotMessage sample_platform awaiting_1_holding_A initialize_error_text 63)
     = [(notification_A_text, 30)]
   \<and> stdout (handleGodotMessage sample_platform awaiting_1_holding_A
               initialize_response_text 36)
     = [relayed (initialize_response_text, 36), relayed (notification_A_text, 30)]
   \<and> waitingForInitialize
       (handleGodotMessage sample_platform awaiting_1_holding_A notification_B_text 30)
   \<and> take 1 (bufferedNotifications
       (handleGodotMessage sample_platform awaiting_1_holding_A notification_B_text 30))
     = [(notification_A_text, 30)]"
proof -
  let ?msg = "JObj [jsonrpc2, (ascii ''id'', JNum 1),
               (ascii ''error'', JObj [(ascii ''code'', JNum (- 32600)),
                                       (ascii ''message'', JStr (ascii ''no''))])]"
  have h1: "waitingForInitialize awaiting_1_holding_A"
    and t: "initializeRequestId awaiting_1_holding_A = JNum 1"
    and b: "bufferedNotifications awaiting_1_holding_A = [(notification_A_text, 30)]"
    and o: "stdout awaiting_1_holding_A = []"
    by (simp_all add: awaiting_1_holding_A_def awaiting_1_def initial_bridge_def)
  have h2: "JSON_parse sample_platform initialize_error_text = Some ?msg"
    by (simp add: sample_platform_def sample_parse_error)
  have h3: "get_prop ?msg (ascii ''id'') = Inr (Some (JNum 1))"
    by (simp add: jsonrpc2_def ascii_def)
  have h4: "strict_equals (Some (JNum 1)) (Some (initializeRequestId awaiting_1_holding_A))"
    by (simp add: t)
  have h5: "get_prop ?msg (ascii ''result'') = Inr None"
    by (simp add: jsonrpc2_def ascii_def)
  from error_response_keeps_buffer_active [OF h1 h2 h3 h4 h5, of 63 initialize_response_text 36]
    error_response_keeps_buffer_active [OF h1 h2 h3 h4 h5, of 63 notification_B_text 30]
  show ?thesis
    by (simp add: t b o sample_classify)
qed

section \<open>The frame codec\<close>

text \<open>
  C2. For every byte sequence (an encoding of valid frames or not) and every way of cutting
  it into chunks, feeding the chunks one delivery at a time, each appended to the
  carried-over remainder, runs the callback on the same payloads in the same order and
  leaves the same remainder as one extraction on the concatenation.
\<close>

theorem chunked_delivery_same_as_whole:
  "foldl (feed onMessage) ([], st) chunks = extractMessages (concat chunks) onMessage st"
  using foldl_feed [of onMessage "[]" st chunks] by (simp add: extractMessages_Nil)

text \<open>Two frames delivered one byte at a time: both payloads arrive, in order.\<close>

theorem chunked_delivery_bytewise:
  "foldl (feed collect) ([], []) (map (\<lambda>b. [b]) two_frames)
   = ([], [(ascii ''{}'', 2), (ascii ''[1]'', 3)])"
proof -
  have "concat (map (\<lambda>b. [b]) two_frames) = two_frames"
    by (rule concat_singletons)
  with chunked_delivery_same_as_whole [of collect "[]" "map (\<lambda>b. [b]) two_frames"]
  show ?thesis
    by (simp add: two_frames_whole)
qed

text \<open>
  C7. Let the first delimiter of the buffer end a header in which the regular expression
  finds no length. Extraction drops exactly the header and the delimiter and goes on with
  the next byte: on what follows it behaves as on a buffer that starts there. In
  particular, when well-formed frames follow, each payload is decoded, in order, with its
  byte length, and nothing remains. \<open>extractMessages\<close> is total, so no input aborts it.
\<close>

theorem malformed_header_is_skipped:
  assumes "indexOf (header @ HEADER_DELIMITER) HEADER_DELIMITER = Some (length header)"
    and "header_match (toString_utf8 header) = None"
    and "\<forall>p \<in> set ps. well_formed p"
  shows "extractMessages (header @ HEADER_DELIMITER @ rest) onMessage st
           = extractMessages rest onMessage st
         \<and> extractMessages (header @ HEADER_DELIMITER @ concat (map wire ps)) onMessage st
           = ([], foldl (\<lambda>s p. onMessage p (byteLength p) s) st ps)"
proof -
  have skip: "extractMessages (header @ HEADER_DELIMITER @ r) onMessage st
              = extractMessages r onMessage st" for r
  proof -
    have "indexOf ((header @ HEADER_DELIMITER) @ r) HEADER_DELIMITER = Some (length header)"
      using assms(1) by (rule indexOf_append)
    then have idx: "indexOf (header @ HEADER_DELIMITER @ r) HEADER_DELIMITER
                    = Some (length header)"
      by simp
    have len4: "length HEADER_DELIMITER = 4"
      by (simp add: HEADER_DELIMITER_def)
    show ?thesis
      using idx assms(2) len4 by (subst extractMessages.simps) simp
  qed
  have "extractMessages (concat (map wire ps) @ []) onMessage st
        = extractMessages [] onMessage (foldl (\<lambda>s p. onMessage p (byteLength p) s) st ps)"
    using assms(3) by (rule extract_frames)
  with skip [of rest] skip [of "concat (map wire ps)"] show ?thesis
    by (simp add: extractMessages_Nil)
qed

text \<open>
  A header \<open>Content-Length: abc\<close> followed by two frames, the second one with text
  outside ASCII.
\<close>

theorem malformed_header_then_frames:
  "extractMessages
     (malformed_header @ HEADER_DELIMITER @ concat (map wire [ascii ''{}'', non_ascii_text]))
     collect []
   = ([], [(ascii ''{}'', 2), (non_ascii_text, 9)])"
proof -
  have h1: "indexOf (malformed_header @ HEADER_DELIMITER) HEADER_DELIMITER
            = Some (length malformed_header)"
    by (simp add: malformed_header_def bytes_of_def HEADER_DELIMITER_def)
  have h2: "header_match (toString_utf8 malformed_header) = None"
    by (simp add: malformed_header_def bytes_of_def toString_utf8.simps(2) match_here_def
        ascii_def canon_def is_digit_def is_space_def)
  have h3: "\<forall>p \<in> set [ascii ''{}'', non_ascii_text]. well_formed p"
    by (simp add: non_ascii_well_formed)
       (simp add: ascii_def is_high_surrogate_def is_low_surrogate_def)
  have n1: "byteLength (ascii ''{}'') = 2"
    by (simp add: byteLength_def ascii_def is_high_surrogate_def is_low_surrogate_def
        utf8_bytes_def)
  have n2: "byteLength non_ascii_text = 9"
    by (simp add: byteLength_def non_ascii_encoding)
  from malformed_header_is_skipped [OF h1 h2 h3, of "[]" collect "[]"]
  show ?thesis
    by (simp add: n1 n2 collect_def)
qed

text \<open>
  C8. For every well-formed payload, what \<open>writeToStdout\<close> writes is the header with the
  length of the payload's UTF-8 encoding, the delimiter and the payload; extracting from
  the bytes of that text gives back exactly the payload, together with its encoded byte
  count, and leaves nothing.
\<close>

theorem serialize_then_extract:
  assumes "well_formed content"
  shows "stdout (writeToStdout st content contentLength)
           = stdout st @ [frame (length (utf8_encode content)) content]
         \<and> extractMessages (utf8_encode (frame (length (utf8_encode content)) content))
             onMessage x
           = ([], onMessage content (length (utf8_encode content)) x)"
proof -
  have "extractMessages (wire content @ []) onMessage x
        = extractMessages [] onMessage (onMessage content (byteLength content) x)"
    using assms by (rule extract_frame)
  then show ?thesis
    by (simp add: wire_def byteLength_def extractMessages_Nil writeToStdout_def)
qed

text \<open>Four code units that encode to nine bytes: the declared length is 9, not 4.\<close>

theorem serialize_then_extract_non_ascii:
  "length non_ascii_text = 4
   \<and> stdout (writeToStdout initial_bridge non_ascii_text 4) = [frame 9 non_ascii_text]
   \<and> extractMessages (utf8_encode (frame 9 non_ascii_text)) collect []
     = ([], [(non_ascii_text, 9)])"
proof -
  have n: "length (utf8_encode non_ascii_text) = 9"
    by (simp add: non_ascii_encoding)
  have l: "length non_ascii_text = 4"
    by (simp add: non_ascii_text_def)
  have o: "stdout initial_bridge = []"
    by (simp add: initial_bridge_def)
  from serialize_then_extract [OF non_ascii_well_formed, of initial_bridge 4 collect "[]"]
  show ?thesis
    unfolding n by (simp add: l o collect_def)
qed

section \<open>The staging queue and the connection lifecycle\<close>







text \<open>
  C5. Whatever is queued when a reconnect succeeds, from before the close or from the time
  without a connection, is discarded: the connect callback leaves the queue empty, writes
  none of it to the transport, and writes nothing to the local stream but the restart
  notification. Frames that arrive during the warm-up are written when it ends, in order,
  and a frame that arrives after that is forwarded directly.
\<close>

theorem reconnect_discards_staged:
  assumes "shouldKeepRunning st"
  shows "\<exists>s3 s4.
           reconnect_run P st before_timer before_connect = Inr s3
         \<and> pendingMessages s3 = []
         \<and> tcpWritten s3 = tcpWritten st
         \<and> stdout s3 = stdout st
              @ (if wasInitialized st then [framed (restart_notice P)] else [])
         \<and> onWarmupTimeout (stdinMessages P s3 during_warmup) = Inr s4
         \<and> tcpWritten s4 = tcpWritten st @ map relayed during_warmup
         \<and> pendingMessages s4 = []
         \<and> stdout s4 = stdout s3
         \<and> tcpConnected s4 \<and> \<not> isWarmingUp s4
         \<and> tcpWritten (stdinMessage P c n s4)
             = tcpWritten s4 @ [framed (normalizedContent P c)]"
  using assms by (rule reconnect_run_states)

text \<open>
  After a session: A and B are queued while the connection is down and never written; C
  arrives during the warm-up and is written; a later message is forwarded directly.
\<close>

theorem reconnect_discards_staged_run:
  "\<exists>s3 s4.
      reconnect_run sample_platform session_bridge
        [(notification_A_text, 30)] [(notification_B_text, 30)] = Inr s3
    \<and> pendingMessages s3 = []
    \<and> tcpWritten s3 = [framed initialize_request_text]
    \<and> stdout s3 = [framed initialize_response_text, framed restart_notice_text]
    \<and> onWarmupTimeout (stdinMessages sample_platform s3 [(notification_C_text, 30)]) = Inr s4
    \<and> tcpWritten s4 = [framed initialize_request_text, framed notification_C_text]
    \<and> pendingMessages s4 = []
    \<and> stdout s4 = stdout s3
    \<and> tcpWritten (stdinMessage sample_platform did_open_text 83 s4)
        = [framed initialize_request_text, framed notification_C_text,
           framed did_open_normalized_text]"
proof -
  from reconnect_discards_staged
    [OF session_bridge_fields(1), of sample_platform "[(notification_A_text, 30)]"
       "[(notification_B_text, 30)]" "[(notification_C_text, 30)]" did_open_text 83]
  obtain s3 s4 where
    "reconnect_run sample_platform session_bridge
        [(notification_A_text, 30)] [(notification_B_text, 30)] = Inr s3"
    "pendingMessages s3 = []"
    "tcpWritten s3 = [framed initialize_request_text]"
    "stdout s3 = [framed initialize_response_text, framed restart_notice_text]"
    "onWarmupTimeout (stdinMessages sample_platform s3 [(notification_C_text, 30)]) = Inr s4"
    "tcpWritten s4 = [framed initialize_request_text, framed notification_C_text]"
    "pendingMessages s4 = []"
    "stdout s4 = stdout s3"
    "tcpWritten (stdinMessage sample_platform did_open_text 83 s4)
        = tcpWritten s4 @ [framed did_open_normalized_text]"
    by (auto simp: session_bridge_fields sample_restart_notice sample_normalized_did_open
        relayed_framed)
  then show ?thesis
    by (intro exI [of _ s3] exI [of _ s4]) simp
qed

text \<open>
  C6 fails on the code. A message that arrives from stdin before the first connection is
  queued by the stdin callback and written by the connect callback as it came, and neither
  step looks at it: whether the bridge waits for an initialize response, and for which id,
  is what it was before, also when the message is an initialize request.
\<close>

theorem staged_request_is_not_tracked:
  assumes "tcpSocket st = Some (Socket False)" "\<not> tcpConnected st" "\<not> isReconnecting st"
  shows "\<exists>s1. onConnect P (stdinMessage P c n st) = Inr s1
         \<and> tcpWritten s1 = tcpWritten st @ map relayed (pendingMessages st) @ [framed c]
         \<and> waitingForInitialize s1 = waitingForInitialize st
         \<and> initializeRequestId s1 = initializeRequestId st
         \<and> stdout s1 = stdout st"
proof -
  let ?q = "stdinMessage P c n st"
  have q: "?q = st\<lparr>pendingMessages := pendingMessages st @ [(c, n)]\<rparr>"
    using assms(2) by (simp add: stdinMessage_def)
  define s1 where "s1 = ?q\<lparr>tcpConnected := True, reconnectAttempts := 0,
                  tcpWritten := tcpWritten ?q @ map relayed (pendingMessages ?q),
                  pendingMessages := []\<rparr>"
  have "\<not> isReconnecting ?q" "tcpSocket ?q = Some (Socket False)"
    unfolding q using assms by simp_all
  then have c: "onConnect P ?q = Inr s1"
    unfolding s1_def by (rule onConnect_first)
  have "tcpWritten s1 = tcpWritten st @ map relayed (pendingMessages st) @ [framed c]"
    "waitingForInitialize s1 = waitingForInitialize st"
    "initializeRequestId s1 = initializeRequestId st"
    "stdout s1 = stdout st"
    unfolding s1_def q by (simp_all add: relayed_framed)
  with c show ?thesis
    by (intro exI [of _ s1]) simp
qed

text \<open>
  The initialize request with id 1 arrives before the first connection: it is written on
  connect, the bridge does not wait for a response, and notification A, arriving next, is
  relayed at once. The same request arriving while connected is tracked.
\<close>

theorem staged_initialize_is_not_tracked:
  "\<exists>s1. onConnect sample_platform
            (stdinMessage sample_platform initialize_request_text 58
               (connectToGodot initial_bridge)) = Inr s1
       \<and> tcpWritten s1 = [framed initialize_request_text]
       \<and> \<not> waitingForInitialize s1
       \<and> initializeRequestId s1 = JNull
       \<and> stdout (handleGodotMessage sample_platform s1 notification_A_text 30)
           = [framed notification_A_text]
       \<and> waitingForInitialize
            (stdinMessage sample_platform initialize_request_text 58 connected_bridge)
       \<and> initializeRequestId
            (stdinMessage sample_platform initialize_request_text 58 connected_bridge)
           = JNum 1
       \<and> tcpWritten (stdinMessage sample_platform initialize_request_text 58 connected_bridge)
           = [framed initialize_request_text]"
proof -
  let ?st = "connectToGodot initial_bridge"
  have f: "tcpSocket ?st = Some (Socket False)" "\<not> tcpConnected ?st" "\<not> isReconnecting ?st"
    and g: "tcpWritten ?st = []" "pendingMessages ?st = []" "\<not> waitingForInitialize ?st"
      "initializeRequestId ?st = JNull" "stdout ?st = []"
    by (simp_all add: connectToGodot_def initial_bridge_def)
  from staged_request_is_not_tracked [OF f, of sample_platform initialize_request_text 58]
  obtain s1 where c: "onConnect sample_platform
            (stdinMessage sample_platform initialize_request_text 58 ?st) = Inr s1"
    and k: "tcpWritten s1 = [framed initialize_request_text]" "\<not> waitingForInitialize s1"
      "initializeRequestId s1 = JNull" "stdout s1 = []"
    by (auto simp: g)
  from k(2,4) have h: "stdout (handleGodotMessage sample_platform s1 notification_A_text 30)
           = [framed notification_A_text]"
    by (simp add: handle_idle writeToStdout_def framed_def)
  let ?d = "stdinMessage sample_platform initialize_request_text 58 connected_bridge"
  have d: "?d = connected_bridge\<lparr>waitingForInitialize := True, initializeRequestId := JNum 1,
                         wasInitialized := False,
                         tcpWritten := [framed initialize_request_text]\<rparr>"
    by (simp add: stdinMessage_def session_bridge_fields sendToGodot_def request_tracked
        socket_write_def framed_def)
  have "waitingForInitialize ?d" "initializeRequestId ?d = JNum 1"
    "tcpWritten ?d = [framed initialize_request_text]"
    unfolding d by simp_all
  with c k(1,2,3) h show ?thesis
    by (intro exI [of _ s1]) simp
qed

text \<open>
  C9, amended. A client message that arrives while the bridge is connected and not warming
  up is written to the transport as the frame of its normalised content: the payload
  re-serialised after the URI normalisation when it parses as JSON (and is not \<open>null\<close>),
  the payload unchanged when it does not. Towards the client there is no transform:
  whatever \<open>handleGodotMessage\<close> writes is the frame of the payload it received or of a
  payload it held.
\<close>

theorem transform_on_direct_client_traffic:
  assumes "tcpConnected st" "\<not> isWarmingUp st" "tcpSocket st = Some (Socket False)"
  shows "tcpWritten (stdinMessage P c n st) = tcpWritten st @ [framed (normalizedContent P c)]
         \<and> (JSON_parse P c = Some msg \<and> msg \<noteq> JNull
             \<longrightarrow> normalizedContent P c = JSON_stringify P (normalizeUrisInObject msg))
         \<and> (JSON_parse P c = None \<or> JSON_parse P c = Some JNull
             \<longrightarrow> normalizedContent P c = c)
         \<and> (\<exists>k. stdout (handleGodotMessage P st2 c2 n2) = stdout st2 @ k
                \<and> set k \<subseteq> insert (framed c2) (framed ` fst ` set (bufferedNotifications st2)))"
proof (intro conjI impI)
  show "tcpWritten (stdinMessage P c n st) = tcpWritten st @ [framed (normalizedContent P c)]"
    using assms by (rule stdinMessage_direct)
  show "normalizedContent P c = JSON_stringify P (normalizeUrisInObject msg)"
    if "JSON_parse P c = Some msg \<and> msg \<noteq> JNull"
    using that by (simp add: normalizedContent_cases(1))
  show "normalizedContent P c = c"
    if "JSON_parse P c = None \<or> JSON_parse P c = Some JNull"
    using that by (rule normalizedContent_cases(2))
  show "\<exists>k. stdout (handleGodotMessage P st2 c2 n2) = stdout st2 @ k
           \<and> set k \<subseteq> insert (framed c2) (framed ` fst ` set (bufferedNotifications st2))"
    by (rule handle_writes_original)
qed

text \<open>
  A \<open>didOpen\<close> with the URI \<open>file://C:/a.gd\<close> reaches the peer with \<open>file:///C:/a.gd\<close>,
  a payload that is not JSON reaches it as it is, and the same \<open>didOpen\<close> coming from the
  peer reaches the client as it is.
\<close>

theorem transform_on_direct_client_traffic_run:
  "tcpWritten (stdinMessage sample_platform did_open_text 83 connected_bridge)
     = [framed did_open_normalized_text]
   \<and> tcpWritten (stdinMessage sample_platform plain_text 8 connected_bridge)
     = [framed plain_text]
   \<and> stdout (handleGodotMessage sample_platform connected_bridge did_open_text 83)
     = [framed did_open_text]"
proof (intro conjI)
  let ?msg = "JObj [jsonrpc2, (ascii ''method'', JStr (ascii ''textDocument/didOpen'')),
               (ascii ''params'', JObj [(ascii ''uri'', JStr (ascii ''file://C:/a.gd''))])]"
  have p: "JSON_parse sample_platform did_open_text = Some ?msg"
    by (simp add: sample_platform_def sample_parse_did_open)
  from transform_on_direct_client_traffic
    [OF session_bridge_fields(9,10,11), of sample_platform did_open_text 83 ?msg]
  have "tcpWritten (stdinMessage sample_platform did_open_text 83 connected_bridge)
        = [framed (JSON_stringify sample_platform (normalizeUrisInObject ?msg))]"
    using p by (simp add: session_bridge_fields)
  then show "tcpWritten (stdinMessage sample_platform did_open_text 83 connected_bridge)
     = [framed did_open_normalized_text]"
    by (simp only: normalize_did_open) (simp add: sample_platform_def sample_stringify_simps)
next
  from transform_on_direct_client_traffic
    [OF session_bridge_fields(9,10,11), of sample_platform plain_text 8]
  show "tcpWritten (stdinMessage sample_platform plain_text 8 connected_bridge)
     = [framed plain_text]"
    by (simp add: sample_parse_plain session_bridge_fields)
next
  from transform_on_direct_client_traffic
    [OF session_bridge_fields(9,10,11), of sample_platform plain_text 8 JNull
       connected_bridge did_open_text 83]
  obtain k where k: "stdout (handleGodotMessage sample_platform connected_bridge did_open_text 83)
       = stdout connected_bridge @ k"
    "set k \<subseteq> insert (framed did_open_text)
        (framed ` fst ` set (bufferedNotifications connected_bridge))"
    by blast
  have "length (stdout (handleGodotMessage sample_platform connected_bridge did_open_text 83))
        = 1"
    by (simp add: handle_idle session_bridge_fields writeToStdout_def)
  with k show "stdout (handleGodotMessage sample_platform connected_bridge did_open_text 83)
     = [framed did_open_text]"
    by (cases k) (auto simp: session_bridge_fields connected_bridge_def initial_bridge_def)
qed

text \<open>
  C9 as stated fails: the same \<open>didOpen\<close> coming from the peer is relayed as it is,
  although the normalisation would change it.
\<close>

theorem peer_message_relayed_untransformed:
  "stdout (handleGodotMessage sample_platform connected_bridge did_open_text 83)
     = [framed did_open_text]
   \<and> normalizedContent sample_platform did_open_text = did_open_normalized_text
   \<and> did_open_normalized_text \<noteq> did_open_text"
  by (simp add: handle_idle session_bridge_fields writeToStdout_def framed_def
      sample_normalized_did_open did_open_changed)

end
